(* ===== verification/Prelude.thy ===== *)
theory Prelude
  imports Main "HOL-Library.Word" "HOL-Library.Finite_Map" "HOL-Library.List_Lexorder"
begin

text \<open>
  Shared vocabulary of the development: Go's machine integers as words, Go strings and byte
  slices as lists of bytes, Go maps as finite maps, the decimal formatting that the program
  builds its map keys with, and the generic notion of a reachable state.

  A Go string is an immutable sequence of bytes, so \<open>[]byte(s)\<close> and \<open>string(b)\<close> are
  the identity here, and \<open><\<close> on strings is the lexicographic order that the theory
  \<^verbatim>\<open>HOL-Library.List_Lexorder\<close> puts on lists of unsigned bytes.
\<close>

section \<open>Types\<close>

type_synonym u8 = "8 word"
type_synonym u32 = "32 word"
type_synonym u64 = "64 word"
type_synonym gostring = "u8 list"
type_synonym bytes = "u8 list"

named_theorems codec_simps \<open>unfolding rules and laws of the byte codecs\<close>
named_theorems step_simps \<open>equations of the state-changing operations\<close>

lemma unat_less_2p: "unat (w :: 'a::len word) < 2 ^ LENGTH('a)"
  by (rule unsigned_less)

text \<open>A string literal of the source as the bytes that Go stores for it.\<close>

definition lit :: "string \<Rightarrow> gostring" where
  "lit s = map of_char s"

lemma lit_Nil [simp]: "lit [] = []"
  by (simp add: lit_def)

section \<open>Go maps\<close>

text \<open>\<open>len(m)\<close> for a map.\<close>

definition map_len :: "('k, 'v) fmap \<Rightarrow> nat" where
  "map_len m = fcard (fmdom m)"

text \<open>\<open>m[k]\<close> for a map with zero value \<open>z\<close>: the zero value when the key is absent.\<close>

definition map_get :: "'v \<Rightarrow> ('k, 'v) fmap \<Rightarrow> 'k \<Rightarrow> 'v" where
  "map_get z m k = (case fmlookup m k of None \<Rightarrow> z | Some v \<Rightarrow> v)"

lemma map_len_empty [simp]: "map_len fmempty = 0"
  by (simp add: map_len_def)

lemma map_len_0_iff: "map_len m = 0 \<longleftrightarrow> m = fmempty"
proof
  assume "map_len m = 0"
  then have "fmdom m = {||}" by (simp add: map_len_def)
  then show "m = fmempty" by (intro fmap_ext) (simp add: fmdom_notD)
qed simp

lemma map_len_upd_pos [simp]: "0 < map_len (fmupd k v m)"
  using map_len_0_iff [of "fmupd k v m"]
  by (metis fmempty_lookup fmupd_lookup gr0I option.distinct(1))

lemma map_len_pos_if_lookup: "fmlookup m k = Some v \<Longrightarrow> 0 < map_len m"
  by (metis fmempty_lookup map_len_0_iff not_gr_zero option.distinct(1))

lemma fmupd_same: "fmlookup m k = Some v \<Longrightarrow> fmupd k v m = m"
  by (rule fmap_ext) auto

lemma map_get_upd [simp]: "map_get z (fmupd k v m) k' = (if k = k' then v else map_get z m k')"
  by (simp add: map_get_def)

lemma map_get_empty [simp]: "map_get z fmempty k = z"
  by (simp add: map_get_def)

lemma map_get_Some [simp]: "fmlookup m k = Some v \<Longrightarrow> map_get z m k = v"
  by (simp add: map_get_def)

lemma map_get_None [simp]: "fmlookup m k = None \<Longrightarrow> map_get z m k = z"
  by (simp add: map_get_def)

section \<open>Sequencing fallible steps\<close>

text \<open>
  \<open>x, err := f(); if err != nil { return ..., err }\<close>: go on with the value, or stop with the
  error.
\<close>

definition and_then :: "'e + 'a \<Rightarrow> ('a \<Rightarrow> 'e + 'b) \<Rightarrow> 'e + 'b" where
  "and_then x f = (case x of Inl e \<Rightarrow> Inl e | Inr v \<Rightarrow> f v)"

lemma and_then_simps [simp]: "and_then (Inl e) f = Inl e" "and_then (Inr v) f = f v"
  by (simp_all add: and_then_def)

lemma and_then_Inr: "and_then x f = Inr w \<longleftrightarrow> (\<exists>v. x = Inr v \<and> f v = Inr w)"
  by (cases x) simp_all

section \<open>Decimal formatting\<close>

text \<open>
  \<open>fmt.Sprintf("%s%d", id, n)\<close> appends the decimal digits of \<open>n\<close>, most significant
  first. 48 is the byte of the character 0.
\<close>

fun dec_digits :: "nat \<Rightarrow> gostring" where
  "dec_digits n =
     (if n < 10 then [of_nat (48 + n)] else dec_digits (n div 10) @ [of_nat (48 + n mod 10)])"

declare dec_digits.simps [simp del]

fun dec_value :: "gostring \<Rightarrow> nat" where
  "dec_value ds = foldl (\<lambda>a d. a * 10 + (unat d - 48)) 0 ds"

lemma unat_digit: "k < 10 \<Longrightarrow> unat (of_nat (48 + k) :: u8) = 48 + k"
  by (simp add: unat_of_nat del: of_nat_add)

lemma dec_value_digits: "dec_value (dec_digits n) = n"
proof (induction n rule: dec_digits.induct)
  case (1 n)
  show ?case
  proof (cases "n < 10")
    case True
    then show ?thesis
      by (simp add: dec_digits.simps [of n] unat_digit del: of_nat_add)
  next
    case False
    have "dec_value (dec_digits n) = dec_value (dec_digits (n div 10)) * 10 + n mod 10"
      using False by (simp add: dec_digits.simps [of n] unat_digit del: of_nat_add)
    then show ?thesis using "1" False by simp
  qed
qed

lemma dec_digits_inject [simp]: "dec_digits m = dec_digits n \<longleftrightarrow> m = n"
  by (metis dec_value_digits)

text \<open>
  The key \<open>id + frame\<close> that the unicast layer stores its buffers under. For identifiers of
  one length (the wire format carries 36 bytes) no two different pairs share a key.
\<close>

definition frame_index :: "gostring \<Rightarrow> u64 \<Rightarrow> gostring" where
  "frame_index uuid frame = uuid @ dec_digits (unat frame)"

lemma frame_index_inject:
  "length u = length v \<Longrightarrow> frame_index u f = frame_index v g \<longleftrightarrow> u = v \<and> f = g"
  by (auto simp: frame_index_def word_unat_eq_iff)

lemma frame_index_same_id [simp]: "frame_index u f = frame_index u g \<longleftrightarrow> f = g"
  by (simp add: frame_index_inject)

text \<open>\<open>strings.HasPrefix(s, p)\<close>.\<close>

definition has_prefix :: "gostring \<Rightarrow> gostring \<Rightarrow> bool" where
  "has_prefix s p \<longleftrightarrow> take (length p) s = p"

lemma has_prefix_frame_index [simp]: "has_prefix (frame_index u f) u"
  by (simp add: has_prefix_def frame_index_def)

lemma has_prefix_frame_index_iff:
  "length u = length v \<Longrightarrow> has_prefix (frame_index u f) v \<longleftrightarrow> u = v"
  by (auto simp: has_prefix_def frame_index_def)

section \<open>Reachable states and invariants\<close>

text \<open>
  The states a system reaches from its initial states by steps, and the contract under which
  a predicate is an invariant of it. Each stateful component of the program interprets the
  locale on its own step relation.
\<close>

inductive reach :: "('s \<Rightarrow> bool) \<Rightarrow> ('s \<Rightarrow> 's \<Rightarrow> bool) \<Rightarrow> 's \<Rightarrow> bool"
  for init :: "'s \<Rightarrow> bool" and step :: "'s \<Rightarrow> 's \<Rightarrow> bool" where
  reach_init: "init s \<Longrightarrow> reach init step s"
| reach_step: "reach init step s \<Longrightarrow> step s t \<Longrightarrow> reach init step t"

lemma reach_one: "step s t \<Longrightarrow> reach (\<lambda>u. u = s) step t"
  by (blast intro: reach.intros)

lemma reach_from: "reach (\<lambda>u. u = s) step t \<Longrightarrow> reach init step s \<Longrightarrow> reach init step t"
  by (induction rule: reach.induct) (auto intro: reach_step)

locale invariant_system =
  fixes init :: "'s \<Rightarrow> bool" and step :: "'s \<Rightarrow> 's \<Rightarrow> bool" and inv :: "'s \<Rightarrow> bool"
  assumes inv_init: "init s \<Longrightarrow> inv s"
    and inv_step: "step s t \<Longrightarrow> inv s \<Longrightarrow> inv t"
begin

lemma reach_inv: "reach init step s \<Longrightarrow> inv s"
  by (induction rule: reach.induct) (auto intro: inv_init inv_step)

end

text \<open>
  A deterministic component that handles a list of events, and the contract under which one
  step's fact holds of a whole run.
\<close>

locale event_machine =
  fixes handle :: "'s \<Rightarrow> 'e \<Rightarrow> 's" and inv :: "'s \<Rightarrow> bool"
  assumes handle_inv: "inv s \<Longrightarrow> inv (handle s e)"
begin

lemma run_inv: "inv s \<Longrightarrow> inv (foldl handle s es)"
  by (induction es arbitrary: s) (auto intro: handle_inv)

end

end
