(* ===== verification/GoBytes.thy ===== *)
theory GoBytes
  imports Prelude
begin

text \<open>
  The parts of Go's \<^verbatim>\<open>encoding/binary\<close> and \<^verbatim>\<open>bytes\<close> packages that the program's codecs
  use: big-endian unsigned integers, \<^verbatim>\<open>bytes.Reader\<close> as the list of the bytes it has left,
  and the 36-byte identifier field of the two transport headers. The laws of this theory are
  what the codec theories are built from.
\<close>

section \<open>Big-endian integers\<close>

fun be_bytes :: "nat \<Rightarrow> nat \<Rightarrow> bytes" where
  "be_bytes 0 x = []"
| "be_bytes (Suc n) x = be_bytes n (x div 256) @ [of_nat x]"

definition be_value :: "bytes \<Rightarrow> nat" where
  "be_value bs = foldl (\<lambda>a b. a * 256 + unat b) 0 bs"

lemma length_be_bytes [simp]: "length (be_bytes n x) = n"
  by (induction n arbitrary: x) auto

lemma be_value_snoc [simp]: "be_value (bs @ [b]) = be_value bs * 256 + unat b"
  by (simp add: be_value_def)

lemma be_value_Nil [simp]: "be_value [] = 0"
  by (simp add: be_value_def)

lemma be_value_bytes: "be_value (be_bytes n x) = x mod 256 ^ n"
proof (induction n arbitrary: x)
  case 0
  then show ?case by simp
next
  case (Suc n)
  have "be_value (be_bytes (Suc n) x) = (x div 256 mod 256 ^ n) * 256 + x mod 256"
    by (simp add: Suc unat_of_nat)
  also have "\<dots> = x mod (256 * 256 ^ n)"
    by (simp add: mod_mult2_eq mult.commute)
  finally show ?case by simp
qed

lemma be_value_bound: "be_value bs < 256 ^ length bs"
proof (induction bs rule: rev_induct)
  case Nil
  then show ?case by simp
next
  case (snoc b bs)
  have "unat b < 256" using unat_less_2p [of b] by simp
  then show ?case using snoc by simp
qed

text \<open>\<open>binary.Write(&buf, binary.BigEndian, x)\<close> for the three widths the program uses.\<close>

definition put_u8 :: "u8 \<Rightarrow> bytes" where
  "put_u8 x = [x]"

definition put_u32 :: "u32 \<Rightarrow> bytes" where
  "put_u32 x = be_bytes 4 (unat x)"

definition put_u64 :: "u64 \<Rightarrow> bytes" where
  "put_u64 x = be_bytes 8 (unat x)"

lemma length_put [simp]:
  "length (put_u8 x) = 1" "length (put_u32 y) = 4" "length (put_u64 z) = 8"
  by (simp_all add: put_u8_def put_u32_def put_u64_def)

section \<open>bytes.Reader\<close>

text \<open>
  How a step of a decoder stops: with the error values \<open>io.EOF\<close> and \<open>io.ErrUnexpectedEOF\<close>, or
  with the run-time panic of an impossible \<open>make\<close>, which no caller sees as an error value.
\<close>

datatype io_error = EOF | UnexpectedEOF | MakePanic

text \<open>
  \<open>binary.Read\<close> of a fixed-size value calls \<open>io.ReadFull\<close>: no byte left is \<open>EOF\<close>, fewer
  than needed is \<open>ErrUnexpectedEOF\<close>. The result is the value's bytes and the reader's rest.
\<close>

definition read_full :: "nat \<Rightarrow> bytes \<Rightarrow> io_error + bytes \<times> bytes" where
  "read_full n r =
     (if r = [] then Inl EOF
      else if length r < n then Inl UnexpectedEOF
      else Inr (take n r, drop n r))"

definition get_u8 :: "bytes \<Rightarrow> io_error + u8 \<times> bytes" where
  "get_u8 r = (case read_full 1 r of Inl e \<Rightarrow> Inl e | Inr (b, r') \<Rightarrow> Inr (hd b, r'))"

definition get_u32 :: "bytes \<Rightarrow> io_error + u32 \<times> bytes" where
  "get_u32 r = (case read_full 4 r of Inl e \<Rightarrow> Inl e | Inr (b, r') \<Rightarrow> Inr (of_nat (be_value b), r'))"

definition get_u64 :: "bytes \<Rightarrow> io_error + u64 \<times> bytes" where
  "get_u64 r = (case read_full 8 r of Inl e \<Rightarrow> Inl e | Inr (b, r') \<Rightarrow> Inr (of_nat (be_value b), r'))"

text \<open>
  \<open>reader.Read(buf)\<close>: \<open>EOF\<close> when no byte is left, even for an empty \<open>buf\<close>; otherwise as
  many bytes as there are, up to \<open>len(buf)\<close>, overwrite the front of \<open>buf\<close>, and a short read
  is no error. The result is the new content of \<open>buf\<close> and the rest.
\<close>

definition read_into :: "bytes \<Rightarrow> bytes \<Rightarrow> io_error + bytes \<times> bytes" where
  "read_into buf r =
     (if r = [] then Inl EOF
      else Inr (take (length buf) r @ drop (length r) buf, drop (length buf) r))"

text \<open>\<open>make([]byte, n)\<close>.\<close>

definition zeros :: "nat \<Rightarrow> bytes" where
  "zeros n = replicate n 0"

lemma length_zeros [simp]: "length (zeros n) = n"
  by (simp add: zeros_def)

lemma zeros_0 [simp]: "zeros 0 = []"
  by (simp add: zeros_def)

lemma drop_zeros [simp]: "drop k (zeros n) = zeros (n - k)"
  by (simp add: zeros_def)

text \<open>
  \<open>make([]byte, n)\<close> panics when \<open>n\<close> is beyond what the runtime can address
  (\<open>maxAlloc\<close> = 2^48 on the 64-bit platforms the program runs on).
\<close>

definition max_alloc :: nat where
  "max_alloc = 2 ^ 48"

definition read_new :: "u64 \<Rightarrow> bytes \<Rightarrow> io_error + bytes \<times> bytes" where
  "read_new n r =
     (if max_alloc < unat n then Inl MakePanic else read_into (zeros (unat n)) r)"

text \<open>
  A UDP socket hands at most \<open>len(buf)\<close> bytes of a datagram to \<open>ReadFrom(buf)\<close> and drops the
  rest; the three listeners of the program read into 1024 bytes.
\<close>

definition recv_buf :: "bytes \<Rightarrow> bytes" where
  "recv_buf datagram = take 1024 datagram"

lemma recv_buf_small [simp]: "length d \<le> 1024 \<Longrightarrow> recv_buf d = d"
  by (simp add: recv_buf_def)

section \<open>Laws of the reader\<close>

lemma read_full_append [codec_simps]:
  "length b = n \<Longrightarrow> 0 < n \<Longrightarrow> read_full n (b @ r) = Inr (b, r)"
  by (auto simp: read_full_def)

lemma get_u8_put [codec_simps]: "get_u8 (put_u8 x @ r) = Inr (x, r)"
  by (simp add: get_u8_def put_u8_def read_full_def)

lemma get_u8_Cons [codec_simps]: "get_u8 (x # r) = Inr (x, r)"
  by (simp add: get_u8_def read_full_def)

lemma get_u32_put [codec_simps]: "get_u32 (put_u32 x @ r) = Inr (x, r)"
  using unat_less_2p [of x]
  by (simp add: get_u32_def put_u32_def codec_simps be_value_bytes)

lemma get_u64_put [codec_simps]: "get_u64 (put_u64 x @ r) = Inr (x, r)"
  using unat_less_2p [of x]
  by (simp add: get_u64_def put_u64_def codec_simps be_value_bytes)

lemma get_put_end [codec_simps]:
  "get_u8 (put_u8 a) = Inr (a, [])" "get_u32 (put_u32 b) = Inr (b, [])"
  "get_u64 (put_u64 c) = Inr (c, [])"
  using get_u8_put [of a "[]"] get_u32_put [of b "[]"] get_u64_put [of c "[]"] by simp_all

lemma get_Nil [codec_simps]:
  "get_u8 [] = Inl EOF" "get_u32 [] = Inl EOF" "get_u64 [] = Inl EOF"
  by (simp_all add: get_u8_def get_u32_def get_u64_def read_full_def)

lemma get_short:
  "r \<noteq> [] \<Longrightarrow> length r < 4 \<Longrightarrow> get_u32 r = Inl UnexpectedEOF"
  "r \<noteq> [] \<Longrightarrow> length r < 8 \<Longrightarrow> get_u64 r = Inl UnexpectedEOF"
  by (simp_all add: get_u32_def get_u64_def read_full_def)

lemma read_into_append:
  "length b = length buf \<Longrightarrow> b @ r \<noteq> [] \<Longrightarrow> read_into buf (b @ r) = Inr (b, r)"
  by (simp add: read_into_def)

lemma read_into_exact:
  "length b = length buf \<Longrightarrow> b \<noteq> [] \<Longrightarrow> read_into buf b = Inr (b, [])"
  using read_into_append [of b buf "[]"] by simp

lemma read_into_Nil [codec_simps]: "read_into buf [] = Inl EOF"
  by (simp add: read_into_def)

text \<open>A short read into a fresh buffer leaves zero bytes behind the data, without an error.\<close>

lemma read_into_short:
  "b \<noteq> [] \<Longrightarrow> length b \<le> n \<Longrightarrow> read_into (zeros n) b = Inr (b @ zeros (n - length b), [])"
  by (simp add: read_into_def)

lemma read_into_length: "read_into buf r = Inr (b, r') \<Longrightarrow> length b = length buf"
  by (auto simp: read_into_def split: if_splits)

lemma get_decreases:
  "get_u32 r = Inr (x, r') \<Longrightarrow> length r' < length r"
  "get_u64 r = Inr (y, r') \<Longrightarrow> length r' < length r"
  "get_u8 r = Inr (z, r') \<Longrightarrow> length r' < length r"
  by (auto simp: get_u8_def get_u32_def get_u64_def read_full_def split: if_splits sum.splits)

lemma unat_length_u64 [simp]:
  "length b \<le> max_alloc \<Longrightarrow> unat (of_nat (length b) :: u64) = length b"
  by (simp add: unat_of_nat max_alloc_def)

lemma read_new_length [codec_simps]:
  "length b \<le> max_alloc \<Longrightarrow> b \<noteq> [] \<Longrightarrow> read_new (of_nat (length b)) b = Inr (b, [])"
  by (simp add: read_new_def read_into_exact)

lemma read_new_short:
  "length b \<le> max_alloc \<Longrightarrow> c \<noteq> [] \<Longrightarrow> length c \<le> length b \<Longrightarrow>
   read_new (of_nat (length b)) c = Inr (c @ zeros (length b - length c), [])"
  by (simp add: read_new_def read_into_short)

lemma read_new_Nil: "unat n \<le> max_alloc \<Longrightarrow> read_new n [] = Inl EOF"
  by (simp add: read_new_def read_into_def)

section \<open>The 36-byte identifier field\<close>

text \<open>
  Both transport headers store an identifier in a field of exactly 36 bytes: a longer one is
  cut, a shorter one is padded with zero bytes.
\<close>

definition pad36 :: "gostring \<Rightarrow> bytes" where
  "pad36 s =
     (let b = (if 36 < length s then take 36 s else s)
      in if length b < 36 then b @ zeros (36 - length b) else b)"

lemma length_pad36 [simp]: "length (pad36 s) = 36"
  by (simp add: pad36_def Let_def)

lemma pad36_nonempty [simp]: "pad36 s \<noteq> []"
  by (metis length_pad36 list.size(3) zero_neq_numeral)

lemma pad36_id [simp]: "length s = 36 \<Longrightarrow> pad36 s = s"
  by (simp add: pad36_def)

lemma pad36_idem [simp]: "pad36 (pad36 s) = pad36 s"
  by simp

lemma read_into_pad36 [codec_simps]:
  "length buf = 36 \<Longrightarrow> read_into buf (pad36 s @ r) = Inr (pad36 s, r)"
  by (rule read_into_append) simp_all

lemma read_into_pad36_end [codec_simps]:
  "length buf = 36 \<Longrightarrow> read_into buf (pad36 s) = Inr (pad36 s, [])"
  by (rule read_into_exact) simp_all

section \<open>The contract of a codec\<close>

text \<open>
  What the rest of the program relies on: decoding the encoding of a well-formed message gives
  its canonical form. The message, unicast and multicast codecs each interpret this contract.
\<close>

locale codec =
  fixes enc :: "'m \<Rightarrow> bytes" and dec :: "bytes \<Rightarrow> 'd" and ok :: "'m \<Rightarrow> 'd"
    and wf :: "'m \<Rightarrow> bool"
  assumes roundtrip: "wf m \<Longrightarrow> dec (enc m) = ok m"
begin

lemma enc_determines: "wf a \<Longrightarrow> wf b \<Longrightarrow> enc a = enc b \<Longrightarrow> ok a = ok b"
  by (metis roundtrip)

lemma enc_distinguishes: "wf a \<Longrightarrow> wf b \<Longrightarrow> ok a \<noteq> ok b \<Longrightarrow> enc a \<noteq> enc b"
  using enc_determines by blast

end

end
