(* ===== verification/Messages.thy ===== *)
theory Messages
  imports GoBytes
begin

text \<open>
  The application-level messages of \<^verbatim>\<open>server/message/message.go\<close>: the message type bytes, the
  struct \<open>Message\<close>, its \<open>Encode\<close> and \<open>Decode\<close>, and the \<open>New...Message\<close> constructors.
\<close>

section \<open>Message types\<close>

text \<open>
  \<open>MessageType\<close> is a \<open>uint8\<close>, and \<open>Decode\<close> takes any byte for one, so it is a word here and
  the enumeration's names are constants.
\<close>

type_synonym MessageType = u8

definition ConnectToLeader :: MessageType where "ConnectToLeader = 0"
definition Election :: MessageType where "Election = 1"
definition ElectionAlive :: MessageType where "ElectionAlive = 2"
definition ElectionVictory :: MessageType where "ElectionVictory = 3"
definition Heartbeat :: MessageType where "Heartbeat = 4"
definition Application :: MessageType where "Application = 5"
definition DeadNode :: MessageType where "DeadNode = 6"
definition NewNode :: MessageType where "NewNode = 7"
definition PeerInfo :: MessageType where "PeerInfo = 8"
definition MulticastSessionChange :: MessageType where "MulticastSessionChange = 9"
definition MulticastAck :: MessageType where "MulticastAck = 10"

lemmas message_types = ConnectToLeader_def Election_def ElectionAlive_def ElectionVictory_def
  Heartbeat_def Application_def DeadNode_def NewNode_def PeerInfo_def
  MulticastSessionChange_def MulticastAck_def

section \<open>The message struct\<close>

record AppMessage =
  m_Type :: MessageType
  m_UUID :: gostring
  m_IP :: gostring
  m_Frame :: u32
  m_Msg :: bytes
  m_PeerIds :: "gostring list"
  m_PeerIps :: "gostring list"
  m_MulticastPort :: u32
  m_Clock :: "u32 list"
  m_OldLeaderID :: gostring

text \<open>\<open>Message{Type: t}\<close>: every other field has its zero value.\<close>

definition typed_message :: "MessageType \<Rightarrow> AppMessage" where
  "typed_message t = \<lparr>m_Type = t, m_UUID = [], m_IP = [], m_Frame = 0, m_Msg = [],
     m_PeerIds = [], m_PeerIps = [], m_MulticastPort = 0, m_Clock = [], m_OldLeaderID = []\<rparr>"

section \<open>Encode\<close>

text \<open>\<open>binary.Write(&buf, binary.BigEndian, uint32(len(s)))\<close> and the bytes of \<open>s\<close>.\<close>

definition put_string :: "gostring \<Rightarrow> bytes" where
  "put_string s = put_u32 (of_nat (length s)) @ s"

text \<open>
  The loop over \<open>range len(msg.PeerIds)\<close>, which indexes \<open>PeerIps\<close> and \<open>Clock\<close> with the same
  index: \<open>None\<close> is the index-out-of-range panic.
\<close>

fun encode_peers :: "gostring list \<Rightarrow> gostring list \<Rightarrow> u32 list \<Rightarrow> bytes option" where
  "encode_peers [] ips clocks = Some []"
| "encode_peers (pid # ids) (ip # ips) (clock # clocks) =
     map_option (\<lambda>rest. put_string pid @ put_string ip @ put_u32 clock @ rest)
       (encode_peers ids ips clocks)"
| "encode_peers (pid # ids) _ _ = None"

text \<open>
  \<open>Encode\<close>. Writing to a \<open>bytes.Buffer\<close> never fails, so the error result is always \<open>nil\<close>;
  \<open>None\<close> is the panic of the peer loop.
\<close>

definition Encode :: "AppMessage \<Rightarrow> bytes option" where
  "Encode msg =
     (let t = m_Type msg; buf = put_u8 t in
      if t = ConnectToLeader \<or> t = Election \<or> t = ElectionAlive \<or> t = Heartbeat then Some buf
      else if t = MulticastAck then Some (buf @ put_u32 (m_Frame msg) @ m_Msg msg)
      else if t = Application then Some (buf @ put_string (m_Msg msg))
      else
        let buf = (if t = DeadNode \<or> t = NewNode
                   then buf @ put_string (m_UUID msg) @ put_string (m_IP msg) else buf) in
        if t = ElectionVictory then Some buf
        else if t = MulticastSessionChange \<or> t = PeerInfo then
          (case encode_peers (m_PeerIds msg) (m_PeerIps msg) (m_Clock msg) of
             None \<Rightarrow> None
           | Some peers \<Rightarrow>
               Some (buf @ put_u32 (of_nat (length (m_PeerIds msg))) @ peers @
                     put_u32 (m_MulticastPort msg)))
        else Some buf)"

section \<open>Decode\<close>

text \<open>A length, then \<open>reader.Read\<close> into a fresh buffer of that length.\<close>

definition get_string :: "bytes \<Rightarrow> io_error + gostring \<times> bytes" where
  "get_string r = and_then (get_u32 r) (\<lambda>(n, r). read_into (zeros (unat n)) r)"

fun decode_peers ::
  "nat \<Rightarrow> bytes \<Rightarrow> io_error + (gostring list \<times> gostring list \<times> u32 list) \<times> bytes" where
  "decode_peers 0 r = Inr (([], [], []), r)"
| "decode_peers (Suc n) r =
     and_then (get_string r) (\<lambda>(pid, r).
     and_then (get_string r) (\<lambda>(ip, r).
     and_then (get_u32 r) (\<lambda>(clock, r).
     and_then (decode_peers n r) (\<lambda>((ids, ips, clocks), r).
       Inr ((pid # ids, ip # ips, clock # clocks), r)))))"

definition Decode :: "bytes \<Rightarrow> io_error + AppMessage" where
  "Decode data =
     and_then (get_u8 data) (\<lambda>(t, r).
       let msg = typed_message t in
       if t = ConnectToLeader \<or> t = Election \<or> t = ElectionAlive \<or> t = Heartbeat then Inr msg
       else if t = MulticastAck then
         and_then (get_u32 r) (\<lambda>(f, r). Inr (msg\<lparr>m_Frame := f\<rparr>))
       else if t = Application then
         and_then (get_string r) (\<lambda>(b, r). Inr (msg\<lparr>m_Msg := b\<rparr>))
       else if t = DeadNode \<or> t = NewNode then
         and_then (get_string r) (\<lambda>(pid, r).
         and_then (get_string r) (\<lambda>(ip, r). Inr (msg\<lparr>m_UUID := pid, m_IP := ip\<rparr>)))
       else if t = MulticastSessionChange \<or> t = PeerInfo then
         and_then (get_u32 r) (\<lambda>(count, r).
         and_then (decode_peers (unat count) r) (\<lambda>((ids, ips, clocks), r).
         and_then (get_u32 r) (\<lambda>(port, r).
           Inr (msg\<lparr>m_PeerIds := ids, m_PeerIps := ips, m_Clock := clocks,
                    m_MulticastPort := port\<rparr>))))
       else Inr msg)"

section \<open>Constructors\<close>

definition NewConnectToLeaderMessage :: "bytes option" where
  "NewConnectToLeaderMessage = Encode (typed_message ConnectToLeader)"

definition NewElectionMessage :: "bytes option" where
  "NewElectionMessage = Encode (typed_message Election)"

definition NewElectionVictoryMessage :: "bytes option" where
  "NewElectionVictoryMessage = Encode (typed_message ElectionVictory)"

definition NewElectionAliveMessage :: "bytes option" where
  "NewElectionAliveMessage = Encode (typed_message ElectionAlive)"

definition NewHeartbeatMessage :: "bytes option" where
  "NewHeartbeatMessage = Encode (typed_message Heartbeat)"

definition NewApplicationMessage :: "bytes \<Rightarrow> bytes option" where
  "NewApplicationMessage msg = Encode ((typed_message Application)\<lparr>m_Msg := msg\<rparr>)"

definition NewDeadNodeMessage :: "gostring \<Rightarrow> gostring \<Rightarrow> bytes option" where
  "NewDeadNodeMessage uuid ip = Encode ((typed_message DeadNode)\<lparr>m_UUID := uuid, m_IP := ip\<rparr>)"

definition NewNewNodeMessage :: "gostring \<Rightarrow> gostring \<Rightarrow> bytes option" where
  "NewNewNodeMessage uuid ip = Encode ((typed_message NewNode)\<lparr>m_UUID := uuid, m_IP := ip\<rparr>)"

definition NewMulticastSessionChangeMessage ::
  "gostring list \<Rightarrow> gostring list \<Rightarrow> u32 list \<Rightarrow> u32 \<Rightarrow> bytes option" where
  "NewMulticastSessionChangeMessage ids ips clock port =
     Encode ((typed_message MulticastSessionChange)
       \<lparr>m_PeerIds := ids, m_PeerIps := ips, m_Clock := clock, m_MulticastPort := port\<rparr>)"

definition NewPeerInfoMessage ::
  "gostring list \<Rightarrow> gostring list \<Rightarrow> u32 \<Rightarrow> u32 list \<Rightarrow> bytes option" where
  "NewPeerInfoMessage ids ips port clock =
     Encode ((typed_message PeerInfo)
       \<lparr>m_PeerIds := ids, m_PeerIps := ips, m_MulticastPort := port, m_Clock := clock\<rparr>)"

definition NewMulticastAckMessage :: "u32 \<Rightarrow> bytes option" where
  "NewMulticastAckMessage frame = Encode ((typed_message MulticastAck)\<lparr>m_Frame := frame\<rparr>)"

lemmas constructors = NewConnectToLeaderMessage_def NewElectionMessage_def
  NewElectionVictoryMessage_def NewElectionAliveMessage_def NewHeartbeatMessage_def
  NewApplicationMessage_def NewDeadNodeMessage_def NewNewNodeMessage_def
  NewMulticastSessionChangeMessage_def NewPeerInfoMessage_def NewMulticastAckMessage_def

section \<open>Well-formed messages and their canonical form\<close>

text \<open>
  What a message of each type must satisfy for \<open>Decode\<close> to give it back: strings no longer than
  their 32-bit length field can say, a last field that is not empty (\<open>reader.Read\<close> reports
  \<open>EOF\<close> at the end of the data even when no byte is asked for), and as many addresses and
  clocks as identifiers.
\<close>

definition short :: "gostring \<Rightarrow> bool" where
  "short s \<longleftrightarrow> length s < 2 ^ 32"

definition wf_message :: "AppMessage \<Rightarrow> bool" where
  "wf_message m \<longleftrightarrow>
     (m_Type m = Application \<longrightarrow> m_Msg m \<noteq> [] \<and> short (m_Msg m)) \<and>
     (m_Type m = DeadNode \<or> m_Type m = NewNode \<longrightarrow>
        short (m_UUID m) \<and> m_IP m \<noteq> [] \<and> short (m_IP m)) \<and>
     (m_Type m = PeerInfo \<or> m_Type m = MulticastSessionChange \<longrightarrow>
        length (m_PeerIds m) < 2 ^ 32 \<and>
        length (m_PeerIps m) = length (m_PeerIds m) \<and>
        length (m_Clock m) = length (m_PeerIds m) \<and>
        list_all short (m_PeerIds m) \<and> list_all short (m_PeerIps m))"

text \<open>The fields that a message of its type carries over the wire; the rest is zero.\<close>

definition canonical :: "AppMessage \<Rightarrow> AppMessage" where
  "canonical m =
     (let t = m_Type m; z = typed_message t in
      if t = MulticastAck then z\<lparr>m_Frame := m_Frame m\<rparr>
      else if t = Application then z\<lparr>m_Msg := m_Msg m\<rparr>
      else if t = DeadNode \<or> t = NewNode then z\<lparr>m_UUID := m_UUID m, m_IP := m_IP m\<rparr>
      else if t = MulticastSessionChange \<or> t = PeerInfo then
        z\<lparr>m_PeerIds := m_PeerIds m, m_PeerIps := m_PeerIps m, m_Clock := m_Clock m,
          m_MulticastPort := m_MulticastPort m\<rparr>
      else z)"

section \<open>Round trip\<close>

lemma put_u32_nonempty [simp]: "put_u32 x \<noteq> []"
  by (metis length_put(2) list.size(3) zero_neq_numeral)

lemma get_string_put [codec_simps]:
  "short s \<Longrightarrow> s @ r \<noteq> [] \<Longrightarrow> get_string (put_string s @ r) = Inr (s, r)"
  by (simp add: get_string_def put_string_def codec_simps short_def unat_of_nat
      read_into_append)

lemma get_string_put_end [codec_simps]:
  "short s \<Longrightarrow> s \<noteq> [] \<Longrightarrow> get_string (put_string s) = Inr (s, [])"
  using get_string_put [of s "[]"] by simp

lemma put_string_nonempty [simp]: "put_string s \<noteq> []"
  by (simp add: put_string_def)

lemma decode_encode_peers:
  "encode_peers ids ips clocks = Some b \<Longrightarrow> length ips = length ids \<Longrightarrow>
   length clocks = length ids \<Longrightarrow> list_all short ids \<Longrightarrow> list_all short ips \<Longrightarrow>
   decode_peers (length ids) (b @ r) = Inr ((ids, ips, clocks), r)"
  by (induction ids ips clocks arbitrary: b rule: encode_peers.induct)
    (auto simp: codec_simps)

lemma encode_peers_total:
  "encode_peers ids ips clocks \<noteq> None \<longleftrightarrow> length ids \<le> length ips \<and> length ids \<le> length clocks"
  by (induction ids ips clocks rule: encode_peers.induct) auto

lemma Encode_None_iff:
  "Encode m = None \<longleftrightarrow>
     (m_Type m = PeerInfo \<or> m_Type m = MulticastSessionChange) \<and>
     \<not> (length (m_PeerIds m) \<le> length (m_PeerIps m) \<and> length (m_PeerIds m) \<le> length (m_Clock m))"
  using encode_peers_total [of "m_PeerIds m" "m_PeerIps m" "m_Clock m"]
  by (auto simp: Encode_def Let_def message_types split: option.splits)

lemma Decode_Encode_peers:
  assumes "wf_message m" "m_Type m = PeerInfo \<or> m_Type m = MulticastSessionChange"
    and "Encode m = Some b"
  shows "Decode b = Inr (canonical m)"
proof -
  obtain ps where ps: "encode_peers (m_PeerIds m) (m_PeerIps m) (m_Clock m) = Some ps"
    and b: "b = put_u8 (m_Type m) @ put_u32 (of_nat (length (m_PeerIds m))) @ ps @
                put_u32 (m_MulticastPort m)"
    using assms(2,3) by (auto simp: Encode_def Let_def message_types split: option.splits)
  show ?thesis
    using assms(1,2) decode_encode_peers [OF ps, of "put_u32 (m_MulticastPort m)"]
    by (auto simp: b Decode_def canonical_def wf_message_def Let_def message_types codec_simps
        unat_of_nat typed_message_def)
qed

lemma Decode_Encode_plain:
  assumes "wf_message m" "m_Type m \<noteq> PeerInfo" "m_Type m \<noteq> MulticastSessionChange"
    and "Encode m = Some b"
  shows "Decode b = Inr (canonical m)"
  using assms
  by (auto simp: Encode_def Decode_def canonical_def wf_message_def Let_def message_types
      codec_simps typed_message_def split: if_splits)

lemma Decode_Encode: "wf_message m \<Longrightarrow> Encode m = Some b \<Longrightarrow> Decode b = Inr (canonical m)"
  using Decode_Encode_peers Decode_Encode_plain by blast

lemma wf_Encode: "wf_message m \<Longrightarrow> \<exists>b. Encode m = Some b"
  using Encode_None_iff [of m] by (auto simp: wf_message_def)

interpretation message_codec: codec "\<lambda>m. the (Encode m)" Decode "\<lambda>m. Inr (canonical m)" wf_message
  by unfold_locales (use wf_Encode Decode_Encode in force)

section \<open>Properties\<close>

text \<open>
  C25: encoding a well-formed message never panics, and decoding the bytes gives the message back,
  up to the fields that its type does not carry.
\<close>

theorem message_roundtrip:
  "wf_message m \<Longrightarrow> \<exists>b. Encode m = Some b \<and> Decode b = Inr (canonical m)"
  using message_codec.roundtrip [of m] wf_Encode [of m] by force

theorem message_roundtrip_witness:
  "\<exists>b. Encode ((typed_message PeerInfo)\<lparr>m_PeerIds := [lit ''n1'', lit ''n2''],
          m_PeerIps := [lit ''10.0.0.1'', lit ''x''], m_Clock := [7, 0], m_MulticastPort := 9999\<rparr>) = Some b \<and>
       Decode b = Inr ((typed_message PeerInfo)\<lparr>m_PeerIds := [lit ''n1'', lit ''n2''],
          m_PeerIps := [lit ''10.0.0.1'', lit ''x''], m_Clock := [7, 0], m_MulticastPort := 9999\<rparr>)"
  (is "\<exists>b. Encode ?m = Some b \<and> _ b")
proof -
  have wf: "wf_message ?m"
    by (simp add: wf_message_def typed_message_def message_types short_def lit_def)
  have "canonical ?m = ?m"
    by (simp add: canonical_def typed_message_def message_types Let_def)
  with message_roundtrip [OF wf] show ?thesis by simp
qed

text \<open>
  The only way \<open>Encode\<close> fails is the index-out-of-range panic of the peer list, exactly when a
  peer-info or session-change message has fewer addresses or clocks than identifiers.
\<close>

lemma encode_panics_iff:
  "Encode m = None \<longleftrightarrow>
     (m_Type m = PeerInfo \<or> m_Type m = MulticastSessionChange) \<and>
     (length (m_PeerIps m) < length (m_PeerIds m) \<or> length (m_Clock m) < length (m_PeerIds m))"
  using Encode_None_iff [of m] by auto

text \<open>
  A message whose last field is empty encodes without an error but does not decode: the reader
  reports the end of the data. This is why the sender of chat lines replaces an empty line.
\<close>

lemma empty_last_field_rejected:
  assumes "m_Type m = Application \<and> m_Msg m = [] \<or>
           (m_Type m = DeadNode \<or> m_Type m = NewNode) \<and> short (m_UUID m) \<and> m_IP m = []"
  shows "\<exists>b. Encode m = Some b \<and> Decode b = Inl EOF"
proof -
  have empty: "get_string (put_string []) = Inl EOF"
    by (simp add: get_string_def put_string_def codec_simps)
  show ?thesis
    using assms empty
    by (auto simp: Encode_def Decode_def Let_def message_types codec_simps)
qed

end
