(* ===== verification/UnicastCodec.thy ===== *)
theory UnicastCodec
  imports GoBytes
begin

text \<open>
  The wire format of reliable unicast: the struct \<open>Message\<close>, \<open>encodeUnicastMessage\<close> and
  \<open>decodeUnicastMessage\<close> of \<^verbatim>\<open>server/unicast/unicast.go\<close>.
\<close>

section \<open>Messages and their encoding\<close>

record UMessage =
  u_Response :: u8
  u_Frame :: u64
  u_Tries :: u8
  u_FromUUID :: gostring
  u_ToUUID :: gostring
  u_IP :: gostring
  u_Message :: bytes

definition zero_umessage :: UMessage where
  "zero_umessage = \<lparr>u_Response = 0, u_Frame = 0, u_Tries = 0, u_FromUUID = [], u_ToUUID = [],
     u_IP = [], u_Message = []\<rparr>"

definition encodeUnicastMessage :: "UMessage \<Rightarrow> bytes" where
  "encodeUnicastMessage msg =
     (let buf = put_u8 (u_Response msg) @ put_u64 (u_Frame msg) @ put_u8 (u_Tries msg) @
                pad36 (u_FromUUID msg) @ pad36 (u_ToUUID msg)
      in if u_Response msg = 1 then buf
         else buf @ put_u64 (of_nat (length (u_Message msg))) @ u_Message msg)"

text \<open>
  The two identifiers are read into one buffer, so a short second read would leave bytes of
  the first behind. On every error the code returns a message whose fields are all zero,
  because it assigns them only at the end.
\<close>

definition decodeUnicastMessage :: "bytes \<Rightarrow> gostring \<Rightarrow> io_error + UMessage" where
  "decodeUnicastMessage data ip =
     and_then (get_u8 data) (\<lambda>(response, r).
     and_then (get_u64 r) (\<lambda>(frame, r).
     and_then (get_u8 r) (\<lambda>(tries, r).
     and_then (read_into (zeros 36) r) (\<lambda>(from, r).
     and_then (read_into from r) (\<lambda>(to, r).
       if response = 1 then
         Inr (zero_umessage\<lparr>u_Response := 1, u_Frame := frame, u_Tries := tries,
                u_FromUUID := from, u_ToUUID := to, u_IP := ip\<rparr>)
       else
         and_then (get_u64 r) (\<lambda>(n, r).
         and_then (read_new n r) (\<lambda>(msg, r).
           Inr (zero_umessage\<lparr>u_FromUUID := from, u_ToUUID := to, u_Tries := tries,
                  u_IP := ip, u_Frame := frame, u_Message := msg\<rparr>))))))))"

section \<open>Round trip\<close>

text \<open>
  An acknowledgement needs nothing; a data message needs a payload, because an empty one
  makes the last read report the end of the data.
\<close>

definition wf_umessage :: "UMessage \<Rightarrow> bool" where
  "wf_umessage m \<longleftrightarrow>
     u_Response m = 1 \<or> (u_Message m \<noteq> [] \<and> length (u_Message m) \<le> max_alloc)"

definition canonical_umessage :: "gostring \<Rightarrow> UMessage \<Rightarrow> UMessage" where
  "canonical_umessage ip m = \<lparr>u_Response = (if u_Response m = 1 then 1 else 0),
     u_Frame = u_Frame m, u_Tries = u_Tries m, u_FromUUID = pad36 (u_FromUUID m),
     u_ToUUID = pad36 (u_ToUUID m), u_IP = ip,
     u_Message = (if u_Response m = 1 then [] else u_Message m)\<rparr>"

lemma length_encodeUnicast:
  "length (encodeUnicastMessage m) =
     (if u_Response m = 1 then 82 else 90 + length (u_Message m))"
  by (simp add: encodeUnicastMessage_def Let_def)

lemma decode_encode_ack:
  "u_Response m = 1 \<Longrightarrow>
   decodeUnicastMessage (encodeUnicastMessage m) ip = Inr (canonical_umessage ip m)"
  by (simp add: decodeUnicastMessage_def encodeUnicastMessage_def canonical_umessage_def
      zero_umessage_def codec_simps)

text \<open>The header of a data message, with any bytes in the place of the payload.\<close>

lemma decode_data_header:
  assumes "u_Response m \<noteq> 1"
  shows "decodeUnicastMessage
           (put_u8 (u_Response m) @ put_u64 (u_Frame m) @ put_u8 (u_Tries m) @
            pad36 (u_FromUUID m) @ pad36 (u_ToUUID m) @ put_u64 n @ b) ip =
         and_then (read_new n b) (\<lambda>(p, r).
           Inr ((canonical_umessage ip m)\<lparr>u_Message := p\<rparr>))"
  using assms
  by (simp add: decodeUnicastMessage_def canonical_umessage_def zero_umessage_def codec_simps)

lemma decode_encode_data:
  "u_Response m \<noteq> 1 \<Longrightarrow> u_Message m \<noteq> [] \<Longrightarrow> length (u_Message m) \<le> max_alloc \<Longrightarrow>
   decodeUnicastMessage (encodeUnicastMessage m) ip = Inr (canonical_umessage ip m)"
  by (simp add: encodeUnicastMessage_def decode_data_header codec_simps)
    (simp add: canonical_umessage_def)

lemma decode_encode_unicast:
  "wf_umessage m \<Longrightarrow> decodeUnicastMessage (encodeUnicastMessage m) ip = Inr (canonical_umessage ip m)"
  using decode_encode_ack decode_encode_data by (auto simp: wf_umessage_def)

interpretation unicast_codec:
  codec encodeUnicastMessage "\<lambda>b. decodeUnicastMessage b ip"
    "\<lambda>m. Inr (canonical_umessage ip m)" wf_umessage for ip
  by unfold_locales (rule decode_encode_unicast)

lemma canonical_umessage_sel [simp]:
  "u_Frame (canonical_umessage ip m) = u_Frame m"
  "u_Tries (canonical_umessage ip m) = u_Tries m"
  "u_FromUUID (canonical_umessage ip m) = pad36 (u_FromUUID m)"
  "u_ToUUID (canonical_umessage ip m) = pad36 (u_ToUUID m)"
  "u_IP (canonical_umessage ip m) = ip"
  by (simp_all add: canonical_umessage_def)

text \<open>An empty data message does not decode.\<close>

lemma decode_empty_payload:
  "u_Response m \<noteq> 1 \<Longrightarrow> u_Message m = [] \<Longrightarrow>
   decodeUnicastMessage (encodeUnicastMessage m) ip = Inl EOF"
  using decode_data_header [of m 0 "[]" ip]
  by (simp add: encodeUnicastMessage_def read_new_Nil)

text \<open>Decoded identifiers always fill the field.\<close>

lemma decode_lengths:
  "decodeUnicastMessage data ip = Inr m \<Longrightarrow> length (u_FromUUID m) = 36 \<and> length (u_ToUUID m) = 36"
  by (auto simp: decodeUnicastMessage_def and_then_Inr zero_umessage_def dest!: read_into_length
      split: if_splits)

lemma decode_response: "decodeUnicastMessage data ip = Inr m \<Longrightarrow> u_Response m = 0 \<or> u_Response m = 1"
  by (auto simp: decodeUnicastMessage_def and_then_Inr zero_umessage_def split: if_splits)

section \<open>Properties\<close>

text \<open>
  C26: a data message with a payload and an acknowledgement survive the wire: the receiver
  decodes the same frame, tries and payload, the identifiers padded to 36 bytes, and the
  address that the socket reports.
\<close>

theorem unicast_roundtrip:
  assumes "wf_umessage m"
  shows "decodeUnicastMessage (encodeUnicastMessage m) ip = Inr (canonical_umessage ip m)"
  using assms by (rule unicast_codec.roundtrip)

theorem unicast_roundtrip_witness:
  "decodeUnicastMessage (encodeUnicastMessage
     (zero_umessage\<lparr>u_Frame := 3, u_ToUUID := replicate 36 7, u_Message := [1, 2]\<rparr>)) (lit ''h'') =
   Inr (zero_umessage\<lparr>u_Frame := 3, u_FromUUID := replicate 36 0, u_ToUUID := replicate 36 7,
     u_IP := lit ''h'', u_Message := [1, 2]\<rparr>)"
  by (subst unicast_roundtrip)
    (simp_all add: wf_umessage_def zero_umessage_def canonical_umessage_def max_alloc_def
      pad36_def zeros_def)

text \<open>
  C39: a datagram with more than 934 bytes of payload does not fit the listener's 1024-byte
  buffer, and the loss is not noticed: the message decodes without an error, with the end of its
  payload replaced by zero bytes.
\<close>

theorem unicast_truncated:
  assumes "u_Response m \<noteq> 1" "934 < length (u_Message m)" "length (u_Message m) \<le> max_alloc"
  shows "decodeUnicastMessage (recv_buf (encodeUnicastMessage m)) ip =
         Inr ((canonical_umessage ip m)\<lparr>u_Message :=
                take 934 (u_Message m) @ zeros (length (u_Message m) - 934)\<rparr>)"
proof -
  have "recv_buf (encodeUnicastMessage m) =
          put_u8 (u_Response m) @ put_u64 (u_Frame m) @ put_u8 (u_Tries m) @
          pad36 (u_FromUUID m) @ pad36 (u_ToUUID m) @
          put_u64 (of_nat (length (u_Message m))) @ take 934 (u_Message m)"
    using assms(1) by (simp add: recv_buf_def encodeUnicastMessage_def)
  moreover have "take 934 (u_Message m) \<noteq> []"
    using assms(2) by auto
  ultimately show ?thesis
    using assms by (simp add: decode_data_header read_new_short)
qed

theorem unicast_truncated_witness:
  "decodeUnicastMessage (recv_buf (encodeUnicastMessage
     (zero_umessage\<lparr>u_Message := replicate 1000 9\<rparr>))) [] =
   Inr (zero_umessage\<lparr>u_FromUUID := zeros 36, u_ToUUID := zeros 36,
     u_Message := replicate 934 9 @ zeros 66\<rparr>)"
  by (subst unicast_truncated)
    (simp_all add: zero_umessage_def max_alloc_def canonical_umessage_def pad36_def)

end
