(* ===== verification/UnicastSender.thy ===== *)
theory UnicastSender
  imports UnicastCodec
begin

text \<open>
  The sending half of reliable unicast, \<open>reliableSender\<close> of \<^verbatim>\<open>server/unicast/unicast.go\<close>.

  \<open>send\<close> runs in a goroutine of its caller, so other goroutines work on the same sender while
  it sleeps between two transmissions. The model cuts it where the code takes and gives back the
  mutex: \<open>send_begin\<close> is the first critical section, and every round of the loop is a
  transmission, the operations of other goroutines during the sleep, and the second critical
  section. The network's answer to each transmission and the operations of the others are
  arguments, so a theorem about \<open>send\<close> holds for every interleaving.
\<close>

section \<open>State\<close>

record reliableSender =
  rs_uuid :: gostring
  rs_msgBuf :: "(gostring, UMessage) fmap"
  rs_peerFrame :: "(gostring, u64) fmap"
  rs_ackFrame :: "(gostring, bool) fmap"

definition new_sender :: "gostring \<Rightarrow> reliableSender" where
  "new_sender serverUUID =
     \<lparr>rs_uuid = serverUUID, rs_msgBuf = fmempty, rs_peerFrame = fmempty, rs_ackFrame = fmempty\<rparr>"

section \<open>Operations\<close>

text \<open>
  The first critical section of \<open>send\<close>: the next frame number of this peer, the buffered copy,
  the pending acknowledgement, and the bytes of the first transmission.
\<close>

definition outgoing :: "reliableSender \<Rightarrow> gostring \<Rightarrow> gostring \<Rightarrow> bytes \<Rightarrow> UMessage" where
  "outgoing s ip uuid data = \<lparr>u_Response = 0, u_Frame = map_get 0 (rs_peerFrame s) uuid + 1,
     u_Tries = 0, u_FromUUID = rs_uuid s, u_ToUUID = uuid, u_IP = ip, u_Message = data\<rparr>"

definition send_begin ::
  "reliableSender \<Rightarrow> gostring \<Rightarrow> gostring \<Rightarrow> bytes \<Rightarrow> reliableSender \<times> gostring \<times> bytes" where
  "send_begin s ip uuid data =
     (let msg = outgoing s ip uuid data;
          currFrame = u_Frame msg;
          msgIndex = frame_index uuid currFrame
      in (s\<lparr>rs_peerFrame := fmupd uuid currFrame (rs_peerFrame s),
            rs_msgBuf := fmupd msgIndex msg (rs_msgBuf s),
            rs_ackFrame := fmupd msgIndex False (rs_ackFrame s)\<rparr>,
          msgIndex, encodeUnicastMessage msg))"

text \<open>
  \<open>handleDeadNode\<close>: the peer's frame counter is forgotten, and so is every pending
  acknowledgement whose key starts with the peer's identifier, with its buffered message.
\<close>

definition handleDeadNode :: "reliableSender \<Rightarrow> gostring \<Rightarrow> reliableSender" where
  "handleDeadNode s uuid =
     s\<lparr>rs_peerFrame := fmdrop uuid (rs_peerFrame s),
       rs_ackFrame := fmfilter (\<lambda>k. \<not> has_prefix k uuid) (rs_ackFrame s),
       rs_msgBuf := fmfilter (\<lambda>k. \<not> (has_prefix k uuid \<and> fmlookup (rs_ackFrame s) k \<noteq> None))
                      (rs_msgBuf s)\<rparr>"

text \<open>
  One turn of \<open>ackListener\<close>: an index from the listener clears the pending acknowledgement; an
  acknowledgement that the listener wants sent is written to the network.
\<close>

datatype ack_event = SAckChan gostring | LAckChan UMessage

fun ackListener_step :: "reliableSender \<Rightarrow> ack_event \<Rightarrow> reliableSender \<times> (gostring \<times> bytes) list" where
  "ackListener_step s (SAckChan msgIndex) =
     (s\<lparr>rs_ackFrame := fmdrop msgIndex (rs_ackFrame s)\<rparr>, [])"
| "ackListener_step s (LAckChan msg) = (s, [(u_IP msg, encodeUnicastMessage msg)])"

text \<open>
  The answer to a transmission: \<open>sendUDP\<close> returns nil, returns the socket's error, or panics
  because the address does not resolve.
\<close>

datatype udp_result = UdpOk | UdpError | UdpPanic

datatype send_result = SendTrue | SendFalse | SendPanic | SendRunning bytes

text \<open>The critical section after the sleep.\<close>

definition send_check ::
  "reliableSender \<Rightarrow> gostring \<Rightarrow> gostring \<Rightarrow> gostring \<Rightarrow> bytes \<Rightarrow> reliableSender \<times> send_result" where
  "send_check s ip uuid msgIndex encodedData =
     (if fmlookup (rs_ackFrame s) msgIndex = None then (s, SendTrue)
      else (case decodeUnicastMessage encodedData ip of
              Inl e \<Rightarrow> (s, SendPanic)
            | Inr d \<Rightarrow>
                if u_Tries d = 20 then (handleDeadNode s uuid, SendFalse)
                else (s, SendRunning (encodeUnicastMessage (d\<lparr>u_Tries := u_Tries d + 1\<rparr>)))))"

text \<open>What other goroutines do to the sender while this one sleeps.\<close>

datatype sender_event =
    Acked gostring
  | OtherSend gostring gostring bytes
  | OtherDead gostring

fun apply_event :: "reliableSender \<Rightarrow> sender_event \<Rightarrow> reliableSender" where
  "apply_event s (Acked msgIndex) = fst (ackListener_step s (SAckChan msgIndex))"
| "apply_event s (OtherSend ip uuid data) = fst (send_begin s ip uuid data)"
| "apply_event s (OtherDead uuid) = handleDeadNode s uuid"

text \<open>
  The loop of \<open>send\<close> over the rounds that the environment grants it. The result is the new
  state, the value of the call (\<open>SendRunning\<close> when the rounds are used up first) and the
  datagrams written.
\<close>

type_synonym round = "udp_result \<times> sender_event list"

fun send_loop ::
  "reliableSender \<Rightarrow> gostring \<Rightarrow> gostring \<Rightarrow> gostring \<Rightarrow> bytes \<Rightarrow> round list \<Rightarrow>
   reliableSender \<times> send_result \<times> bytes list" where
  "send_loop s ip uuid msgIndex enc [] = (s, SendRunning enc, [])"
| "send_loop s ip uuid msgIndex enc ((UdpPanic, others) # rounds) = (s, SendPanic, [])"
| "send_loop s ip uuid msgIndex enc ((UdpError, others) # rounds) =
     (handleDeadNode s uuid, SendFalse, [])"
| "send_loop s ip uuid msgIndex enc ((UdpOk, others) # rounds) =
     (case send_check (foldl apply_event s others) ip uuid msgIndex enc of
        (s', SendRunning enc') \<Rightarrow>
          (case send_loop s' ip uuid msgIndex enc' rounds of
             (s'', res, written) \<Rightarrow> (s'', res, enc # written))
      | (s', res) \<Rightarrow> (s', res, [enc]))"

definition send ::
  "reliableSender \<Rightarrow> gostring \<Rightarrow> gostring \<Rightarrow> bytes \<Rightarrow> round list \<Rightarrow>
   reliableSender \<times> send_result \<times> bytes list" where
  "send s ip uuid data rounds =
     (case send_begin s ip uuid data of
        (s', msgIndex, enc) \<Rightarrow> send_loop s' ip uuid msgIndex enc rounds)"

section \<open>Termination and the transmissions\<close>

text \<open>The messages \<open>send\<close> puts on the wire: data, not acknowledgements, with a payload.\<close>

definition sendable :: "UMessage \<Rightarrow> bool" where
  "sendable m \<longleftrightarrow> u_Response m = 0 \<and> u_Message m \<noteq> [] \<and> length (u_Message m) \<le> max_alloc"

definition attempt :: "UMessage \<Rightarrow> nat \<Rightarrow> bytes" where
  "attempt m k = encodeUnicastMessage (m\<lparr>u_Tries := of_nat k\<rparr>)"

lemma decode_attempt:
  "sendable m \<Longrightarrow>
   decodeUnicastMessage (attempt m k) ip = Inr ((canonical_umessage ip m)\<lparr>u_Tries := of_nat k\<rparr>)"
  by (simp add: attempt_def sendable_def decode_encode_data) (simp add: canonical_umessage_def)

lemma encode_next_try:
  "sendable m \<Longrightarrow>
   encodeUnicastMessage ((canonical_umessage ip m)\<lparr>u_Tries := of_nat k + 1\<rparr>) = attempt m (Suc k)"
  by (simp add: attempt_def sendable_def encodeUnicastMessage_def canonical_umessage_def add.commute)

lemma of_nat_is_20: "k \<le> 20 \<Longrightarrow> (of_nat k :: u8) = 20 \<longleftrightarrow> k = 20"
  by (simp add: word_unat_eq_iff unat_of_nat)

lemma send_check_attempt:
  "sendable m \<Longrightarrow> k \<le> 20 \<Longrightarrow> send_check s ip uuid msgIndex (attempt m k) =
     (if fmlookup (rs_ackFrame s) msgIndex = None then (s, SendTrue)
      else if k = 20 then (handleDeadNode s uuid, SendFalse)
      else (s, SendRunning (attempt m (Suc k))))"
  by (simp add: send_check_def decode_attempt encode_next_try of_nat_is_20)

lemma send_loop_ok:
  "sendable m \<Longrightarrow> k \<le> 20 \<Longrightarrow>
   send_loop s ip uuid msgIndex (attempt m k) ((UdpOk, others) # rounds) =
     (let s1 = foldl apply_event s others in
      if fmlookup (rs_ackFrame s1) msgIndex = None then (s1, SendTrue, [attempt m k])
      else if k = 20 then (handleDeadNode s1 uuid, SendFalse, [attempt m k])
      else (case send_loop s1 ip uuid msgIndex (attempt m (Suc k)) rounds of
              (s2, res, written) \<Rightarrow> (s2, res, attempt m k # written)))"
  by (simp add: send_check_attempt Let_def)

lemma round_cases:
  obtains (ok) others where "r = (UdpOk, others)" | (err) others where "r = (UdpError, others)"
    | (panic) others where "r = (UdpPanic, others)"
  by (metis surj_pair udp_result.exhaust)

lemma send_loop_written:
  assumes "sendable m" "k \<le> 20"
    and "send_loop s ip uuid msgIndex (attempt m k) rounds = (s', res, written)"
  shows "written = map (attempt m) [k..<k + length written] \<and> k + length written \<le> 21 \<and>
         (\<forall>enc. res = SendRunning enc \<longrightarrow> length written = length rounds \<and> k + length written \<le> 20)"
  using assms(2,3)
proof (induction rounds arbitrary: s k s' res written)
  case Nil
  then show ?case by simp
next
  case (Cons r rounds)
  show ?case
  proof (cases r rule: round_cases)
    case (ok others)
    let ?s1 = "foldl apply_event s others"
    show ?thesis
    proof (cases "fmlookup (rs_ackFrame ?s1) msgIndex = None \<or> k = 20")
      case True
      then show ?thesis
        using Cons.prems ok assms(1) by (auto simp: send_check_attempt split: if_splits)
    next
      case False
      obtain s2 res2 w2 where
        rec: "send_loop ?s1 ip uuid msgIndex (attempt m (Suc k)) rounds = (s2, res2, w2)"
        by (metis prod_cases3)
      have "written = attempt m k # w2" "res = res2"
        using Cons.prems ok assms(1) False rec
        by (auto simp: send_check_attempt)
      moreover have "map (attempt m) [k..<k + Suc (length w2)] =
          attempt m k # map (attempt m) [Suc k..<Suc k + length w2]"
        by (simp add: upt_conv_Cons del: upt_Suc)
      moreover have "Suc k \<le> 20" using Cons.prems(1) False by simp
      ultimately show ?thesis
        using Cons.IH [OF _ rec] by auto
    qed
  next
    case (err others)
    then show ?thesis using Cons.prems by simp
  next
    case (panic others)
    then show ?thesis using Cons.prems by simp
  qed
qed

lemma send_begin_attempt:
  "send_begin s ip uuid data = (s', msgIndex, enc) \<Longrightarrow> enc = attempt (outgoing s ip uuid data) 0"
  by (auto simp: send_begin_def Let_def attempt_def outgoing_def)

lemma outgoing_sendable:
  "data \<noteq> [] \<Longrightarrow> length data \<le> max_alloc \<Longrightarrow> sendable (outgoing s ip uuid data)"
  by (simp add: sendable_def outgoing_def)

lemma send_eq:
  "send s ip uuid data rounds =
     send_loop (fst (send_begin s ip uuid data)) ip uuid
       (frame_index uuid (map_get 0 (rs_peerFrame s) uuid + 1))
       (attempt (outgoing s ip uuid data) 0) rounds"
  by (simp add: send_def send_begin_def Let_def attempt_def outgoing_def)

section \<open>Pending acknowledgements\<close>

text \<open>
  The events that can clear the pending acknowledgement \<open>msgIndex\<close>: the acknowledgement itself,
  or the cleanup after a dead peer whose identifier is a prefix of the key.
\<close>

fun clears :: "gostring \<Rightarrow> sender_event \<Rightarrow> bool" where
  "clears msgIndex (Acked i) = (i = msgIndex)"
| "clears msgIndex (OtherSend ip uuid data) = False"
| "clears msgIndex (OtherDead uuid) = has_prefix msgIndex uuid"

lemma apply_event_keeps_pending:
  "fmlookup (rs_ackFrame s) i = Some b \<Longrightarrow> \<not> clears i e \<Longrightarrow>
   \<exists>b. fmlookup (rs_ackFrame (apply_event s e)) i = Some b"
  by (cases e) (auto simp: handleDeadNode_def send_begin_def Let_def)

lemma events_keep_pending:
  "fmlookup (rs_ackFrame s) i = Some b \<Longrightarrow> list_all (\<lambda>e. \<not> clears i e) es \<Longrightarrow>
   \<exists>b. fmlookup (rs_ackFrame (foldl apply_event s es)) i = Some b"
proof (induction es arbitrary: s b)
  case Nil
  then show ?case by simp
next
  case (Cons e es)
  obtain b' where "fmlookup (rs_ackFrame (apply_event s e)) i = Some b'"
    using apply_event_keeps_pending [OF Cons.prems(1)] Cons.prems(2) by auto
  then show ?case using Cons.IH Cons.prems(2) by simp
qed

definition unacknowledged :: "gostring \<Rightarrow> round list \<Rightarrow> bool" where
  "unacknowledged msgIndex rounds \<longleftrightarrow>
     list_all (\<lambda>(r, others). r = UdpOk \<and> list_all (\<lambda>e. \<not> clears msgIndex e) others) rounds"

lemma send_loop_unacknowledged:
  assumes "sendable m" "k \<le> 20" "fmlookup (rs_ackFrame s) msgIndex = Some b"
    and "unacknowledged msgIndex rounds" "21 - k \<le> length rounds"
  shows "\<exists>s'. send_loop s ip uuid msgIndex (attempt m k) rounds =
           (handleDeadNode s' uuid, SendFalse, map (attempt m) [k..<21])"
  using assms(2-5)
proof (induction rounds arbitrary: s k b)
  case Nil
  then show ?case by simp
next
  case (Cons r rounds)
  obtain others where r: "r = (UdpOk, others)" "list_all (\<lambda>e. \<not> clears msgIndex e) others"
    using Cons.prems(3) by (auto simp: unacknowledged_def)
  let ?s1 = "foldl apply_event s others"
  obtain b' where b': "fmlookup (rs_ackFrame ?s1) msgIndex = Some b'"
    using events_keep_pending Cons.prems(2) r(2) by blast
  show ?case
  proof (cases "k = 20")
    case True
    then show ?thesis
      using b' r assms(1) by (auto simp: send_check_attempt)
  next
    case False
    have "\<exists>s'. send_loop ?s1 ip uuid msgIndex (attempt m (Suc k)) rounds =
           (handleDeadNode s' uuid, SendFalse, map (attempt m) [Suc k..<21])"
      using Cons.IH [OF _ b'] Cons.prems False by (simp add: unacknowledged_def)
    then show ?thesis
      using b' r assms(1) False Cons.prems(1)
      by (auto simp: send_check_attempt upt_conv_Cons)
  qed
qed

text \<open>A call that returns true saw an event that cleared its pending acknowledgement.\<close>

lemma send_loop_true_cleared:
  assumes "sendable m" "k \<le> 20" "fmlookup (rs_ackFrame s) msgIndex = Some b"
    and "send_loop s ip uuid msgIndex (attempt m k) rounds = (s', SendTrue, written)"
  shows "\<exists>(r, others) \<in> set rounds. \<exists>e \<in> set others. clears msgIndex e"
proof (rule ccontr)
  assume no: "\<not> ?thesis"
  show False
    using assms(2-4) no
  proof (induction rounds arbitrary: s k b s' written)
    case Nil
    then show ?case by simp
  next
    case (Cons r rounds)
    show ?case
    proof (cases r rule: round_cases)
      case (ok others)
      let ?s1 = "foldl apply_event s others"
      have "list_all (\<lambda>e. \<not> clears msgIndex e) others"
        using Cons.prems(4) ok by (auto simp: list_all_iff)
      then obtain b' where b': "fmlookup (rs_ackFrame ?s1) msgIndex = Some b'"
        using events_keep_pending Cons.prems(2) by blast
      obtain s2 res2 w2 where
        rec: "send_loop ?s1 ip uuid msgIndex (attempt m (Suc k)) rounds = (s2, res2, w2)"
        by (metis prod_cases3)
      have "k \<noteq> 20" "res2 = SendTrue"
        using Cons.prems(1,3) ok b' rec assms(1) by (auto simp: send_check_attempt split: if_splits)
      moreover have "Suc k \<le> 20" using Cons.prems(1) \<open>k \<noteq> 20\<close> by simp
      ultimately show ?thesis
        using Cons.IH [of "Suc k", OF _ b'] rec Cons.prems(4) by auto
    next
      case (err others)
      then show ?thesis using Cons.prems by simp
    next
      case (panic others)
      then show ?thesis using Cons.prems by simp
    qed
  qed
qed

lemma send_loop_panic:
  assumes "sendable m" "k \<le> 20"
    and "send_loop s ip uuid msgIndex (attempt m k) rounds = (s', SendPanic, written)"
  shows "UdpPanic \<in> fst ` set rounds"
  using assms(2,3)
proof (induction rounds arbitrary: s k s' written)
  case Nil
  then show ?case by simp
next
  case (Cons r rounds)
  show ?case
  proof (cases r rule: round_cases)
    case (ok others)
    let ?s1 = "foldl apply_event s others"
    obtain s2 res2 w2 where
      rec: "send_loop ?s1 ip uuid msgIndex (attempt m (Suc k)) rounds = (s2, res2, w2)"
      by (metis prod_cases3)
    have "k \<noteq> 20" "res2 = SendPanic"
      using Cons.prems ok rec assms(1) by (auto simp: send_check_attempt split: if_splits)
    moreover have "Suc k \<le> 20" using Cons.prems(1) \<open>k \<noteq> 20\<close> by simp
    ultimately have "UdpPanic \<in> fst ` set rounds" using Cons.IH rec by blast
    then show ?thesis by simp
  qed (use Cons.prems in auto)
qed

text \<open>A call that returns false ends with the cleanup of its peer.\<close>

lemma send_check_false: "send_check s ip uuid i enc = (s', SendFalse) \<Longrightarrow> s' = handleDeadNode s uuid"
  by (auto simp: send_check_def split: if_splits sum.splits)

lemma send_loop_false:
  "send_loop s ip uuid msgIndex enc rounds = (s', SendFalse, written) \<Longrightarrow>
   \<exists>s0. s' = handleDeadNode s0 uuid"
proof (induction s ip uuid msgIndex enc rounds arbitrary: s' written rule: send_loop.induct)
  case (4 s ip uuid msgIndex enc others rounds)
  then show ?case
    by (fastforce dest: send_check_false split: prod.splits send_result.splits)
qed auto

section \<open>Invariant\<close>

text \<open>
  Every pending acknowledgement has its message in the buffer, and every buffered message is a
  first transmission from this node stored under its own key.
\<close>

definition sender_inv :: "reliableSender \<Rightarrow> bool" where
  "sender_inv s \<longleftrightarrow>
     fmpred (\<lambda>k b. \<not> b \<and> fmlookup (rs_msgBuf s) k \<noteq> None) (rs_ackFrame s) \<and>
     fmpred (\<lambda>k m. k = frame_index (u_ToUUID m) (u_Frame m) \<and> u_FromUUID m = rs_uuid s \<and>
                    u_Response m = 0 \<and> u_Tries m = 0) (rs_msgBuf s)"

lemma sender_inv_step: "sender_inv s \<Longrightarrow> sender_inv (apply_event s e)"
  by (cases e)
    (auto simp: sender_inv_def send_begin_def handleDeadNode_def outgoing_def Let_def fmpred_iff
      split: if_splits)

interpretation sender_events: event_machine apply_event sender_inv
  by unfold_locales (rule sender_inv_step)

lemma sender_inv_new: "sender_inv (new_sender u)"
  by (simp add: sender_inv_def new_sender_def)

section \<open>Properties\<close>

text \<open>
  C16: \<open>send\<close> returns. Whatever the network and the other goroutines do, 21 rounds are enough; it
  writes at most 21 datagrams, all of them the same message with the tries counted up from 0;
  and it panics only if the address does not resolve.
\<close>

theorem send_terminates:
  assumes "data \<noteq> []" "length data \<le> max_alloc"
    and "UdpPanic \<notin> fst ` set rounds" "21 \<le> length rounds"
  shows "\<exists>s' ok written. send s ip uuid data rounds = (s', if ok then SendTrue else SendFalse, written) \<and>
           written = map (attempt (outgoing s ip uuid data)) [0..<length written] \<and>
           length written \<le> 21"
proof -
  obtain s' res written where send: "send s ip uuid data rounds = (s', res, written)"
    by (metis prod_cases3)
  note loop = send_loop_written [OF outgoing_sendable [OF assms(1,2)] _ send [unfolded send_eq]]
  have "res \<noteq> SendPanic"
  proof
    assume "res = SendPanic"
    with send have "send_loop (fst (send_begin s ip uuid data)) ip uuid
        (frame_index uuid (map_get 0 (rs_peerFrame s) uuid + 1))
        (attempt (outgoing s ip uuid data) 0) rounds = (s', SendPanic, written)"
      by (simp add: send_eq)
    from send_loop_panic [OF outgoing_sendable [OF assms(1,2)] _ this] assms(3)
    show False by simp
  qed
  moreover have "\<nexists>enc. res = SendRunning enc"
    using loop assms(4) by auto
  ultimately have "res = SendTrue \<or> res = SendFalse"
    by (cases res) auto
  then have "res = (if res = SendTrue then SendTrue else SendFalse)" by auto
  with send loop show ?thesis by (intro exI [of _ "res = SendTrue"] exI) auto
qed

theorem send_terminates_witness:
  "\<exists>s' ok written. send (new_sender [1]) (lit ''10.0.0.2'') [2] [7, 7] (replicate 21 (UdpOk, [])) =
     (s', if ok then SendTrue else SendFalse, written) \<and>
     written = map (attempt (outgoing (new_sender [1]) (lit ''10.0.0.2'') [2] [7, 7])) [0..<length written] \<and>
     length written \<le> 21"
  by (rule send_terminates) (simp_all add: max_alloc_def)

text \<open>
  A message that nobody acknowledges is transmitted exactly 21 times; then the call returns
  false and forgets the peer.
\<close>

lemma send_gives_up:
  assumes "data \<noteq> []" "length data \<le> max_alloc" "21 \<le> length rounds"
    and "unacknowledged (frame_index uuid (map_get 0 (rs_peerFrame s) uuid + 1)) rounds"
  shows "\<exists>s'. send s ip uuid data rounds =
           (handleDeadNode s' uuid, SendFalse, map (attempt (outgoing s ip uuid data)) [0..<21])"
  unfolding send_eq
  by (rule send_loop_unacknowledged [OF outgoing_sendable, where b = False])
    (use assms in \<open>simp_all add: send_begin_def Let_def outgoing_def\<close>)

lemma send_gives_up_witness:
  "\<exists>s'. send (new_sender [1]) [] [2] [7] (replicate 21 (UdpOk, [Acked [5]])) =
     (handleDeadNode s' [2], SendFalse, map (attempt (outgoing (new_sender [1]) [] [2] [7])) [0..<21])"
  by (rule send_gives_up)
    (simp_all add: max_alloc_def unacknowledged_def list_all_iff new_sender_def frame_index_def)

text \<open>
  \<open>send\<close> returns true only if, during one of its sleeps, its own frame was acknowledged or the
  cleanup of a dead peer removed its entry.
\<close>

lemma send_true_needs_event:
  assumes "data \<noteq> []" "length data \<le> max_alloc"
    and "send s ip uuid data rounds = (s', SendTrue, written)"
  shows "\<exists>(r, others) \<in> set rounds. \<exists>e \<in> set others.
           clears (frame_index uuid (map_get 0 (rs_peerFrame s) uuid + 1)) e"
  by (rule send_loop_true_cleared [OF outgoing_sendable, where b = False])
    (use assms in \<open>simp_all add: send_eq send_begin_def Let_def outgoing_def\<close>)

lemma send_true_needs_event_witness:
  "\<exists>(r, others) \<in> set [(UdpOk, [Acked (frame_index [2] 1)])]. \<exists>e \<in> set others.
     clears (frame_index [2] (map_get 0 (rs_peerFrame (new_sender [1])) [2] + 1)) e"
  by (rule send_true_needs_event [where data = "[7]" and ip = "[]"])
    (simp_all add: max_alloc_def send_eq new_sender_def send_begin_def Let_def
      send_check_def outgoing_def)

text \<open>
  Once one call to a peer has given up, another call to the same peer that is still waiting
  returns true at its next check, although nothing acknowledged it: the cleanup has removed its
  pending entry, which is how a call recognises success.
\<close>

lemma dead_peer_false_success:
  assumes "send s ip uuid data rounds = (s', SendFalse, written)"
  shows "send_check s' ip uuid (frame_index uuid f) enc = (s', SendTrue)"
proof -
  obtain s0 where "s' = handleDeadNode s0 uuid"
    using assms send_loop_false by (metis send_eq)
  then show ?thesis by (simp add: send_check_def handleDeadNode_def)
qed

lemma dead_peer_false_success_witness:
  "let s = apply_event (new_sender [1]) (OtherSend [] [2] [8]);
       s' = fst (send s [] [2] [7] [(UdpError, [])])
   in fmlookup (rs_ackFrame s) (frame_index [2] 1) = Some False \<and>
      send_check s' [] [2] (frame_index [2] 1) (attempt (outgoing s [] [2] [8]) 0) = (s', SendTrue)"
  by (simp add: Let_def dead_peer_false_success [of _ "[]" "[2]" "[7]" "[(UdpError, [])]" _ "[]"]
      send_eq new_sender_def send_begin_def outgoing_def)

text \<open>
  In every interleaving of sends, acknowledgements and cleanups, a pending acknowledgement
  has its message in the retransmission buffer, stored under the key of its own frame.
\<close>

lemma sender_invariant: "sender_inv (foldl apply_event (new_sender u) es)"
  by (rule sender_events.run_inv) (rule sender_inv_new)

end
