(* ===== verification/UnicastListener.thy ===== *)
theory UnicastListener
  imports UnicastCodec
begin

text \<open>
  The receiving half of reliable unicast, \<open>reliableListener\<close> of \<^verbatim>\<open>server/unicast/unicast.go\<close>.
  One call of \<open>listener_step\<close> is one iteration of the loop of \<open>start\<close>, for the bytes and the
  address that the socket returned. What the iteration sends on the channels is the list of
  effects, in the order of the sends.
\<close>

section \<open>State and effects\<close>

record reliableListener =
  rl_uuid :: gostring
  rl_msgBuf :: "(gostring, UMessage) fmap"
  rl_peerFrame :: "(gostring, u64) fmap"

definition new_listener :: "gostring \<Rightarrow> reliableListener" where
  "new_listener serverUUID =
     \<lparr>rl_uuid = serverUUID, rl_msgBuf = fmempty, rl_peerFrame = fmempty\<rparr>"

text \<open>Sends on \<open>sAckChan\<close>, \<open>lAckChan\<close> and \<open>msgChan\<close>.\<close>

datatype listener_effect = SAck gostring | LAck UMessage | ToApp UMessage

section \<open>The loop body\<close>

text \<open>The last frame of a peer that went to the application.\<close>

definition last_frame :: "reliableListener \<Rightarrow> gostring \<Rightarrow> u64" where
  "last_frame l p = map_get 0 (rl_peerFrame l) p"

text \<open>
  The inner \<open>for\<close>: the key is computed from the peer's counter, which the loop does not change.
\<close>

function drain :: "reliableListener \<Rightarrow> gostring \<Rightarrow> reliableListener \<times> UMessage list" where
  "drain l from =
     (let msgIndex = frame_index from (last_frame l from) in
      case fmlookup (rl_msgBuf l) msgIndex of
        None \<Rightarrow> (l, [])
      | Some m \<Rightarrow>
          (case drain (l\<lparr>rl_msgBuf := fmdrop msgIndex (rl_msgBuf l)\<rparr>) from of
             (l', ms) \<Rightarrow> (l', m # ms)))"
  by pat_completeness auto
termination
  by (relation "measure (\<lambda>(l, from).
        if fmlookup (rl_msgBuf l) (frame_index from (last_frame l from)) = None then 0 else 1)")
    (auto simp: last_frame_def)

declare drain.simps [simp del]

definition ack_for :: "reliableListener \<Rightarrow> UMessage \<Rightarrow> UMessage" where
  "ack_for l msg = \<lparr>u_Response = 1, u_Frame = u_Frame msg, u_Tries = u_Tries msg,
     u_FromUUID = rl_uuid l, u_ToUUID = u_FromUUID msg, u_IP = u_IP msg, u_Message = []\<rparr>"

definition receive :: "reliableListener \<Rightarrow> UMessage \<Rightarrow> reliableListener \<times> listener_effect list" where
  "receive l msg =
     (if u_ToUUID msg \<noteq> rl_uuid l then (l, [])
      else
        let from = u_FromUUID msg; msgIndex = frame_index from (u_Frame msg) in
        if u_Response msg = 1 then (l, [SAck msgIndex])
        else
          let ack = LAck (ack_for l msg);
              lastAckFrame = last_frame l from;
              l1 = (if fmlookup (rl_peerFrame l) from = None
                    then l\<lparr>rl_peerFrame := fmupd from 0 (rl_peerFrame l)\<rparr> else l)
          in
          if lastAckFrame + 1 < u_Frame msg then
            (l1\<lparr>rl_msgBuf := fmupd msgIndex msg (rl_msgBuf l1)\<rparr>, [ack])
          else if u_Frame msg < lastAckFrame + 1 then (l1, [ack])
          else
            let l2 = l1\<lparr>rl_peerFrame := fmupd from (last_frame l1 from + 1) (rl_peerFrame l1)\<rparr> in
            if 0 < map_len (rl_msgBuf l2) then
              (case drain l2 from of
                 (l3, buffered) \<Rightarrow> (l3, ack # ToApp msg # map ToApp buffered))
            else (l2, [ack, ToApp msg]))"

text \<open>
  A datagram: at most 1024 of its bytes reach the decoder; on a decoding error the code goes
  on with the zero message, which is addressed to nobody; \<open>None\<close> is the panic of a \<open>make\<close> with an
  impossible length.
\<close>

definition listener_step ::
  "reliableListener \<Rightarrow> gostring \<Rightarrow> bytes \<Rightarrow> (reliableListener \<times> listener_effect list) option" where
  "listener_step l ip datagram =
     (case decodeUnicastMessage (recv_buf datagram) ip of
        Inl MakePanic \<Rightarrow> None
      | Inl _ \<Rightarrow> Some (receive l zero_umessage)
      | Inr msg \<Rightarrow> Some (receive l msg))"

fun receive_all ::
  "reliableListener \<Rightarrow> UMessage list \<Rightarrow> reliableListener \<times> listener_effect list" where
  "receive_all l [] = (l, [])"
| "receive_all l (m # ms) =
     (case receive l m of (l', e) \<Rightarrow>
        (case receive_all l' ms of (l'', es) \<Rightarrow> (l'', e @ es)))"

text \<open>The messages that reach the application, and those of one peer among them.\<close>

fun app_message :: "listener_effect \<Rightarrow> UMessage list" where
  "app_message (ToApp m) = [m]"
| "app_message _ = []"

definition delivered :: "listener_effect list \<Rightarrow> UMessage list" where
  "delivered es = concat (map app_message es)"

definition delivered_from :: "gostring \<Rightarrow> listener_effect list \<Rightarrow> UMessage list" where
  "delivered_from p es = filter (\<lambda>m. u_FromUUID m = p) (delivered es)"

lemma delivered_simps [simp]:
  "delivered [] = []" "delivered (ToApp m # es) = m # delivered es"
  "delivered (LAck m # es) = delivered es" "delivered (SAck i # es) = delivered es"
  "delivered (es @ fs) = delivered es @ delivered fs" "delivered (map ToApp ms) = ms"
  by (induction ms) (simp_all add: delivered_def)

lemma delivered_from_simps [simp]:
  "delivered_from p [] = []"
  "delivered_from p (ToApp m # es) =
     (if u_FromUUID m = p then m # delivered_from p es else delivered_from p es)"
  "delivered_from p (LAck m # es) = delivered_from p es"
  "delivered_from p (SAck i # es) = delivered_from p es"
  "delivered_from p (es @ fs) = delivered_from p es @ delivered_from p fs"
  "delivered_from p (map ToApp ms) = filter (\<lambda>m. u_FromUUID m = p) ms"
  by (simp_all add: delivered_from_def)

section \<open>The drain loop\<close>

lemma drain_None:
  "fmlookup (rl_msgBuf l) (frame_index from (last_frame l from)) = None \<Longrightarrow> drain l from = (l, [])"
  by (simp add: drain.simps)

text \<open>It delivers at most one message: the next lookup uses the same key.\<close>

lemma drain_Some:
  "fmlookup (rl_msgBuf l) (frame_index from (last_frame l from)) = Some m \<Longrightarrow>
   drain l from =
     (l\<lparr>rl_msgBuf := fmdrop (frame_index from (last_frame l from)) (rl_msgBuf l)\<rparr>, [m])"
  by (subst drain.simps) (simp add: Let_def drain_None last_frame_def)

lemma drain_eq:
  "drain l from =
     (let i = frame_index from (last_frame l from) in
      case fmlookup (rl_msgBuf l) i of
        None \<Rightarrow> (l, [])
      | Some m \<Rightarrow> (l\<lparr>rl_msgBuf := fmdrop i (rl_msgBuf l)\<rparr>, [m]))"
  by (simp add: drain_None drain_Some Let_def split: option.split)

section \<open>The branches of receive\<close>

text \<open>A data message for this node.\<close>

definition is_data :: "reliableListener \<Rightarrow> UMessage \<Rightarrow> bool" where
  "is_data l m \<longleftrightarrow> u_ToUUID m = rl_uuid l \<and> u_Response m \<noteq> 1"

definition touch :: "reliableListener \<Rightarrow> gostring \<Rightarrow> reliableListener" where
  "touch l p = l\<lparr>rl_peerFrame := fmupd p (last_frame l p) (rl_peerFrame l)\<rparr>"

lemma touch_eq:
  "(if fmlookup (rl_peerFrame l) p = None
    then l\<lparr>rl_peerFrame := fmupd p 0 (rl_peerFrame l)\<rparr> else l) = touch l p"
  by (auto simp: touch_def last_frame_def map_get_def fmupd_same split: option.splits)

lemma last_frame_touch [simp]: "last_frame (touch l p) q = last_frame l q"
  by (simp add: touch_def last_frame_def)

lemma touch_sel [simp]:
  "rl_uuid (touch l p) = rl_uuid l" "rl_msgBuf (touch l p) = rl_msgBuf l"
  by (simp_all add: touch_def)

lemma receive_other: "\<not> is_data l m \<Longrightarrow> fst (receive l m) = l \<and> delivered (snd (receive l m)) = []"
  by (auto simp: receive_def is_data_def Let_def)

lemma receive_ahead:
  "is_data l m \<Longrightarrow> last_frame l (u_FromUUID m) + 1 < u_Frame m \<Longrightarrow>
   receive l m = ((touch l (u_FromUUID m))
     \<lparr>rl_msgBuf := fmupd (frame_index (u_FromUUID m) (u_Frame m)) m (rl_msgBuf l)\<rparr>,
     [LAck (ack_for l m)])"
  by (auto simp: receive_def is_data_def Let_def touch_eq)

lemma receive_stale:
  "is_data l m \<Longrightarrow> u_Frame m < last_frame l (u_FromUUID m) + 1 \<Longrightarrow>
   receive l m = (touch l (u_FromUUID m), [LAck (ack_for l m)])"
  by (auto simp: receive_def is_data_def Let_def touch_eq)

definition advance :: "reliableListener \<Rightarrow> gostring \<Rightarrow> reliableListener" where
  "advance l p = l\<lparr>rl_peerFrame := fmupd p (last_frame l p + 1) (rl_peerFrame l)\<rparr>"

lemma last_frame_advance [simp]:
  "last_frame (advance l p) q = (if q = p then last_frame l p + 1 else last_frame l q)"
  by (simp add: advance_def last_frame_def)

lemma advance_sel [simp]:
  "rl_uuid (advance l p) = rl_uuid l" "rl_msgBuf (advance l p) = rl_msgBuf l"
  by (simp_all add: advance_def)

lemma receive_next:
  assumes "is_data l m" "u_Frame m = last_frame l (u_FromUUID m) + 1"
  shows "receive l m =
     (case drain (advance l (u_FromUUID m)) (u_FromUUID m) of
        (l', ms) \<Rightarrow> (l', LAck (ack_for l m) # ToApp m # map ToApp ms))"
proof -
  have adv: "(touch l p)\<lparr>rl_peerFrame := fmupd p (last_frame (touch l p) p + 1)
               (rl_peerFrame (touch l p))\<rparr> = advance l p" for p
    by (simp add: advance_def touch_def last_frame_def)
  have "drain (advance l p) p = (advance l p, [])" if "rl_msgBuf l = fmempty" for p
    using that by (simp add: drain_eq)
  then show ?thesis
    using assms map_len_0_iff [of "rl_msgBuf l"]
    by (simp add: receive_def is_data_def Let_def touch_eq adv del: last_frame_touch)
qed

section \<open>Buffer invariant\<close>

text \<open>
  Every buffered message is a data message for this node with full-length identifiers, stored
  under its own key.
\<close>

definition listener_inv :: "reliableListener \<Rightarrow> bool" where
  "listener_inv l \<longleftrightarrow> length (rl_uuid l) = 36 \<and>
     fmpred (\<lambda>k m. k = frame_index (u_FromUUID m) (u_Frame m) \<and> length (u_FromUUID m) = 36 \<and>
                    is_data l m) (rl_msgBuf l)"

definition listener_next :: "reliableListener \<Rightarrow> gostring \<times> bytes \<Rightarrow> reliableListener" where
  "listener_next l d = (case listener_step l (fst d) (snd d) of None \<Rightarrow> l | Some (l', es) \<Rightarrow> l')"

lemma is_data_cong: "rl_uuid l' = rl_uuid l \<Longrightarrow> is_data l' m = is_data l m"
  by (simp add: is_data_def)

lemma drain_inv: "listener_inv l \<Longrightarrow> listener_inv (fst (drain l p))"
  by (auto simp: drain_eq Let_def listener_inv_def fmpred_iff is_data_def split: option.splits
      if_splits)

lemma inv_advance [simp]: "listener_inv (advance l p) = listener_inv l"
  by (simp add: listener_inv_def is_data_def advance_def)

lemma inv_touch [simp]: "listener_inv (touch l p) = listener_inv l"
  by (simp add: listener_inv_def is_data_def touch_def)

lemma receive_cases:
  obtains (other) "\<not> is_data l m"
  | (ahead) "is_data l m" "last_frame l (u_FromUUID m) + 1 < u_Frame m"
  | (stale) "is_data l m" "u_Frame m < last_frame l (u_FromUUID m) + 1"
  | (expected) "is_data l m" "u_Frame m = last_frame l (u_FromUUID m) + 1"
  by (metis linorder_neqE)

lemma receive_inv:
  assumes "listener_inv l" "length (u_FromUUID m) = 36"
  shows "listener_inv (fst (receive l m))"
proof (cases rule: receive_cases [of l m])
  case ahead
  then show ?thesis
    using assms by (auto simp: receive_ahead listener_inv_def fmpred_iff is_data_def split: if_splits)
next
  case expected
  have "listener_inv (fst (drain (advance l (u_FromUUID m)) (u_FromUUID m)))"
    by (rule drain_inv) (simp add: assms(1))
  then show ?thesis using expected by (auto simp: receive_next split: prod.split)
qed (use assms in \<open>simp_all add: receive_other receive_stale\<close>)

lemma receive_zero: "listener_inv l \<Longrightarrow> receive l zero_umessage = (l, [])"
  by (auto simp: receive_def zero_umessage_def listener_inv_def)

lemma listener_next_inv: "listener_inv l \<Longrightarrow> listener_inv (listener_next l d)"
  by (auto simp: listener_next_def listener_step_def receive_zero
      dest: decode_lengths intro: receive_inv split: option.splits sum.splits io_error.splits)
    (metis decode_lengths fst_conv receive_inv)

interpretation listener_events: event_machine listener_next listener_inv
  by unfold_locales (rule listener_next_inv)

lemma listener_inv_new: "length u = 36 \<Longrightarrow> listener_inv (new_listener u)"
  by (simp add: listener_inv_def new_listener_def)

section \<open>The contract: an in-order receiver\<close>

text \<open>
  What the listener is for: per peer, accept exactly the next frame and drop everything else.
\<close>

definition fifo_accept ::
  "(gostring \<Rightarrow> u64) \<Rightarrow> UMessage \<Rightarrow> (gostring \<Rightarrow> u64) \<times> UMessage list" where
  "fifo_accept seen m =
     (let p = u_FromUUID m in
      if u_Frame m = seen p + 1 then (seen(p := seen p + 1), [m]) else (seen, []))"

fun fifo_all ::
  "(gostring \<Rightarrow> u64) \<Rightarrow> UMessage list \<Rightarrow> (gostring \<Rightarrow> u64) \<times> UMessage list" where
  "fifo_all seen [] = (seen, [])"
| "fifo_all seen (m # ms) =
     (case fifo_accept seen m of (seen', a) \<Rightarrow>
        (case fifo_all seen' ms of (seen'', b) \<Rightarrow> (seen'', a @ b)))"

lemma fifo_all_consecutive:
  "fifo_all seen ms = (seen', acc) \<Longrightarrow> a = filter (\<lambda>m. u_FromUUID m = p) acc \<Longrightarrow>
   map u_Frame a = map (\<lambda>i. seen p + 1 + of_nat i) [0..<length a] \<and>
   seen' p = seen p + of_nat (length a)"
proof (induction ms arbitrary: seen seen' acc a)
  case Nil
  then show ?case by simp
next
  case (Cons m ms)
  obtain seen1 a1 where acc1: "fifo_accept seen m = (seen1, a1)" by fastforce
  obtain seen2 b where rest: "fifo_all seen1 ms = (seen2, b)" by fastforce
  let ?b = "filter (\<lambda>m. u_FromUUID m = p) b"
  have ih: "map u_Frame ?b = map (\<lambda>i. seen1 p + 1 + of_nat i) [0..<length ?b]"
    "seen2 p = seen1 p + of_nat (length ?b)"
    using Cons.IH [OF rest refl] by auto
  show ?case
  proof (cases "u_FromUUID m = p \<and> u_Frame m = seen p + 1")
    case True
    then have "a = m # ?b" "seen1 p = seen p + 1"
      using Cons.prems acc1 rest by (auto simp: fifo_accept_def Let_def)
    then show ?thesis
      using ih True Cons.prems(1) acc1 rest
      by (auto simp: upt_conv_Cons map_Suc_upt [symmetric] algebra_simps simp del: upt_Suc)
  next
    case False
    then have "a = ?b" "seen1 p = seen p"
      using Cons.prems acc1 rest by (auto simp: fifo_accept_def Let_def split: if_splits)
    then show ?thesis using ih Cons.prems(1) acc1 rest by auto
  qed
qed

text \<open>A run in which no data message is ahead of the next expected frame of its sender.\<close>

fun gap_free :: "reliableListener \<Rightarrow> UMessage list \<Rightarrow> bool" where
  "gap_free l [] = True"
| "gap_free l (m # ms) =
     ((is_data l m \<longrightarrow> u_Frame m \<le> last_frame l (u_FromUUID m) + 1) \<and>
      gap_free (fst (receive l m)) ms)"

lemma receive_uuid [simp]: "rl_uuid (fst (receive l m)) = rl_uuid l"
  by (cases rule: receive_cases [of l m])
    (auto simp: receive_other receive_ahead receive_stale receive_next drain_eq Let_def
      split: option.splits)

lemma receive_refines:
  assumes "rl_msgBuf l = fmempty"
    and "is_data l m \<longrightarrow> u_Frame m \<le> last_frame l (u_FromUUID m) + 1"
  shows "rl_msgBuf (fst (receive l m)) = fmempty \<and>
         (if is_data l m
          then (last_frame (fst (receive l m)), delivered (snd (receive l m))) =
               fifo_accept (last_frame l) m
          else last_frame (fst (receive l m)) = last_frame l \<and> delivered (snd (receive l m)) = [])"
proof (cases rule: receive_cases [of l m])
  case ahead
  then show ?thesis using assms(2) by simp
next
  case expected
  have "drain (advance l p) p = (advance l p, [])" for p
    by (simp add: drain_eq assms(1))
  then show ?thesis
    using expected assms(1) by (auto simp: receive_next fifo_accept_def Let_def fun_eq_iff)
qed (use assms in \<open>auto simp: receive_other receive_stale fifo_accept_def Let_def fun_eq_iff\<close>)

lemma receive_all_refines:
  "rl_msgBuf l = fmempty \<Longrightarrow> gap_free l ms \<Longrightarrow> receive_all l ms = (l', es) \<Longrightarrow>
   rl_msgBuf l' = fmempty \<and> (last_frame l', delivered es) = fifo_all (last_frame l) (filter (is_data l) ms)"
proof (induction ms arbitrary: l l' es)
  case Nil
  then show ?case by simp
next
  case (Cons m ms)
  obtain l1 e1 where r1: "receive l m = (l1, e1)" by fastforce
  obtain e2 where r2: "receive_all l1 ms = (l', e2)" and es: "es = e1 @ e2"
    using Cons.prems(3) r1 by (auto split: prod.splits)
  have step: "rl_msgBuf l1 = fmempty"
    "if is_data l m then (last_frame l1, delivered e1) = fifo_accept (last_frame l) m
     else last_frame l1 = last_frame l \<and> delivered e1 = []"
    using receive_refines [of l m] Cons.prems(1,2) r1 by auto
  have "is_data l1 = is_data l"
    using receive_uuid [of l m] r1 by (auto simp: is_data_def fun_eq_iff)
  then show ?case
    using Cons.IH [OF step(1) _ r2] Cons.prems(2) r1 step es
    by (auto split: prod.splits if_splits)
qed

section \<open>A missing frame\<close>

lemma drain_from:
  "listener_inv l \<Longrightarrow> length q = 36 \<Longrightarrow> m \<in> set (snd (drain l q)) \<Longrightarrow> u_FromUUID m = q"
  by (auto simp: drain_eq Let_def listener_inv_def fmpred_iff split: option.splits)
    (metis frame_index_inject)

lemma last_frame_drain [simp]: "last_frame (fst (drain l q)) p = last_frame l p"
  by (simp add: drain_eq Let_def last_frame_def split: option.split)

lemma receive_stalled:
  assumes "listener_inv l" "length (u_FromUUID m) = 36"
    and "is_data l m \<Longrightarrow> u_FromUUID m = p \<Longrightarrow> u_Frame m \<noteq> last_frame l p + 1"
  shows "delivered_from p (snd (receive l m)) = [] \<and>
         last_frame (fst (receive l m)) p = last_frame l p"
proof (cases rule: receive_cases [of l m])
  case expected
  then have p: "u_FromUUID m \<noteq> p" using assms(3) by auto
  obtain l' ms where d: "drain (advance l (u_FromUUID m)) (u_FromUUID m) = (l', ms)"
    by fastforce
  have "\<forall>x \<in> set ms. u_FromUUID x \<noteq> p"
    using drain_from [of "advance l (u_FromUUID m)" "u_FromUUID m"] assms(1,2) p d by auto
  moreover have "last_frame l' p = last_frame l p"
    using last_frame_drain [of "advance l (u_FromUUID m)" "u_FromUUID m" p] p d by simp
  ultimately show ?thesis
    using receive_next [OF expected] p d by (simp add: filter_empty_conv)
next
  case ahead
  then show ?thesis by (simp add: receive_ahead) (simp add: last_frame_def touch_def)
qed (simp_all add: receive_other receive_stale delivered_from_def)

lemma receive_all_stalled:
  assumes "listener_inv l" "\<forall>m \<in> set ms. length (u_FromUUID m) = 36"
    and "\<forall>m \<in> set ms. is_data l m \<and> u_FromUUID m = p \<longrightarrow> u_Frame m \<noteq> last_frame l p + 1"
  shows "delivered_from p (snd (receive_all l ms)) = [] \<and>
         last_frame (fst (receive_all l ms)) p = last_frame l p"
  using assms
proof (induction ms arbitrary: l)
  case Nil
  then show ?case by simp
next
  case (Cons m ms)
  obtain l1 e1 where r1: "receive l m = (l1, e1)" by fastforce
  have "delivered_from p e1 = [] \<and> last_frame l1 p = last_frame l p"
    using receive_stalled [of l m p] Cons.prems r1 by auto
  moreover have "listener_inv l1" "is_data l1 = is_data l"
    using receive_inv [of l m] receive_uuid [of l m] Cons.prems r1
    by (auto simp: is_data_def fun_eq_iff)
  ultimately show ?case
    using Cons.IH [of l1] Cons.prems r1 by (auto split: prod.splits)
qed

section \<open>Properties\<close>

text \<open>
  Whatever its frame number, a data message for this node is acknowledged exactly once, before
  anything goes to the application, and nothing else is put on the acknowledgement channels.
\<close>

lemma data_always_acked:
  assumes "u_ToUUID m = rl_uuid l" "u_Response m \<noteq> 1"
  shows "\<exists>ms. snd (receive l m) = LAck (ack_for l m) # map ToApp ms"
proof -
  have d: "is_data l m" using assms by (simp add: is_data_def)
  show ?thesis
  proof (cases rule: receive_cases [of l m])
    case expected
    then show ?thesis
      by (auto simp: receive_next intro!: exI [of _ "m # ms" for ms] split: prod.split)
  qed (use d in \<open>simp_all add: receive_ahead receive_stale\<close>)
qed

lemma data_always_acked_witness:
  "\<exists>ms. snd (receive (new_listener [9]) (zero_umessage\<lparr>u_ToUUID := [9], u_Frame := 5\<rparr>)) =
     LAck (ack_for (new_listener [9]) (zero_umessage\<lparr>u_ToUUID := [9], u_Frame := 5\<rparr>)) # map ToApp ms"
  by (rule data_always_acked) (simp_all add: new_listener_def zero_umessage_def)

text \<open>
  C15: as long as no data message is ahead of the next frame of its sender, the listener implements
  the in-order receiver: it delivers what the contract accepts, keeps its counters, and never
  buffers; duplicates and late retransmissions do not disturb it.
\<close>

theorem listener_implements_fifo:
  assumes "rl_msgBuf l = fmempty" "gap_free l ms" "receive_all l ms = (l', es)"
  shows "(last_frame l', delivered es) = fifo_all (last_frame l) (filter (is_data l) ms) \<and>
         rl_msgBuf l' = fmempty"
  using receive_all_refines [OF assms] by simp

theorem listener_implements_fifo_witness:
  "let m = zero_umessage\<lparr>u_ToUUID := [9], u_FromUUID := [8], u_Frame := 1\<rparr>;
       n = m\<lparr>u_Frame := 2\<rparr>;
       l' = fst (receive_all (new_listener [9]) [m, m, n]);
       es = snd (receive_all (new_listener [9]) [m, m, n])
   in delivered es = [m, n] \<and>
      (last_frame l', delivered es) =
        fifo_all (last_frame (new_listener [9])) (filter (is_data (new_listener [9])) [m, m, n]) \<and>
      rl_msgBuf l' = fmempty"
  unfolding Let_def
  by (intro conjI [OF _ listener_implements_fifo])
    (simp_all add: new_listener_def zero_umessage_def receive_def Let_def last_frame_def
      drain_eq is_data_def)

text \<open>
  Per peer, a gap-free run delivers consecutive frames, starting after the last one delivered
  before, and the counter advances by exactly the number of deliveries.
\<close>

lemma gap_free_delivers_consecutive:
  assumes "rl_msgBuf l = fmempty" "gap_free l ms" "receive_all l ms = (l', es)"
  shows "map u_Frame (delivered_from p es) =
           map (\<lambda>i. last_frame l p + 1 + of_nat i) [0..<length (delivered_from p es)] \<and>
         last_frame l' p = last_frame l p + of_nat (length (delivered_from p es))"
  by (rule fifo_all_consecutive [where ms = "filter (is_data l) ms"])
    (use receive_all_refines [OF assms] in \<open>auto simp: delivered_from_def\<close>)

lemma gap_free_delivers_consecutive_witness:
  "let m = zero_umessage\<lparr>u_ToUUID := [9], u_FromUUID := [8], u_Frame := 1\<rparr>;
       n = m\<lparr>u_Frame := 2\<rparr>;
       es = snd (receive_all (new_listener [9]) [m, m, n])
   in map u_Frame (delivered_from [8] es) =
        map (\<lambda>i. last_frame (new_listener [9]) [8] + 1 + of_nat i) [0..<length (delivered_from [8] es)]"
  unfolding Let_def
  by (rule gap_free_delivers_consecutive [THEN conjunct1, OF _ _ surjective_pairing])
    (simp_all add: new_listener_def zero_umessage_def receive_def Let_def last_frame_def
      drain_eq is_data_def)

text \<open>
  C36: the frame after the last delivered one is needed: as long as it does not arrive, nothing
  else that arrives makes the listener deliver any message of that peer, although every one of
  them is acknowledged, so their sender never transmits them again.
\<close>

theorem missing_frame_blocks_peer:
  assumes "listener_inv l" "\<forall>m \<in> set ms. length (u_FromUUID m) = 36"
    and "\<forall>m \<in> set ms. is_data l m \<and> u_FromUUID m = p \<longrightarrow> u_Frame m \<noteq> last_frame l p + 1"
  shows "delivered_from p (snd (receive_all l ms)) = []"
  using receive_all_stalled [OF assms] by simp

theorem missing_frame_blocks_peer_witness:
  "delivered_from (replicate 36 8) (snd (receive_all (new_listener (replicate 36 9))
     [zero_umessage\<lparr>u_ToUUID := replicate 36 9, u_FromUUID := replicate 36 8, u_Frame := 2\<rparr>,
      zero_umessage\<lparr>u_ToUUID := replicate 36 9, u_FromUUID := replicate 36 8, u_Frame := 3\<rparr>])) = []"
  by (rule missing_frame_blocks_peer)
    (simp_all add: listener_inv_new zero_umessage_def, simp add: new_listener_def last_frame_def)

text \<open>
  C37: a message that arrived one frame early is not delivered when the gap closes, because the
  drain loop looks for the frame it has just delivered; and when the early message is transmitted
  once more, the application gets it twice.
\<close>

theorem reordered_frames_lost_then_duplicated:
  assumes "is_data l m" "u_FromUUID m = p" "u_Frame m = last_frame l p + 1"
    and "is_data l n" "u_FromUUID n = p" "u_Frame n = last_frame l p + 2"
    and "unat (last_frame l p) + 2 < 2 ^ 64"
    and "\<forall>f. fmlookup (rl_msgBuf l) (frame_index p f) = None"
  shows "delivered (snd (receive_all l [n, m])) = [m] \<and>
         delivered (snd (receive_all l [n, m, n\<lparr>u_Tries := t\<rparr>])) = [m, n\<lparr>u_Tries := t\<rparr>, n]"
proof -
  let ?f = "last_frame l p"
  let ?l1 = "fst (receive l n)" and ?n = "n\<lparr>u_Tries := t\<rparr>"
  have lt: "?f + 1 < ?f + 2"
    using assms(7) by (simp add: word_less_nat_alt unat_word_ariths)
  have neq: "?f + 2 \<noteq> ?f + 1" using lt by auto
  have l1: "receive l n = ((touch l p)\<lparr>rl_msgBuf := fmupd (frame_index p (?f + 2)) n (rl_msgBuf l)\<rparr>,
              [LAck (ack_for l n)])"
    using assms(4-6) lt by (simp add: receive_ahead)
  have d1: "is_data ?l1 m" "last_frame ?l1 p = ?f"
    using assms(1) l1 by (simp_all add: is_data_def) (simp add: last_frame_def touch_def)
  have l2: "receive ?l1 m = (advance ?l1 p, [LAck (ack_for ?l1 m), ToApp m])"
    using d1 assms(2,3,8) neq
    by (simp add: receive_next drain_eq Let_def l1)
  have d2: "is_data (advance ?l1 p) ?n" "last_frame (advance ?l1 p) p = ?f + 1"
    using assms(4) d1 l1 by (simp_all add: is_data_def)
  have l3: "delivered (snd (receive (advance ?l1 p) ?n)) = [?n, n]"
    using d2 assms(5,6) d1(2) l1
    by (simp add: receive_next drain_eq Let_def)
  show ?thesis using l1 l2 l3 by (auto split: prod.splits)
qed

theorem reordered_frames_lost_then_duplicated_witness:
  "let m = zero_umessage\<lparr>u_ToUUID := [9], u_FromUUID := [8], u_Frame := 1\<rparr>;
       n = m\<lparr>u_Frame := 2\<rparr>
   in delivered (snd (receive_all (new_listener [9]) [n, m])) = [m] \<and>
      delivered (snd (receive_all (new_listener [9]) [n, m, n\<lparr>u_Tries := 1\<rparr>])) =
        [m, n\<lparr>u_Tries := 1\<rparr>, n]"
  unfolding Let_def
  by (rule reordered_frames_lost_then_duplicated [where p = "[8]"])
    (simp_all add: is_data_def new_listener_def zero_umessage_def last_frame_def)

end
