(* ===== verification/UnicastProtocol.thy ===== *)
theory UnicastProtocol
  imports UnicastSender UnicastListener
begin

text \<open>
  Reliable unicast end to end: \<open>ReliableUnicast\<close> of \<^verbatim>\<open>server/unicast/unicast.go\<close> on two nodes and
  a network between them that may lose, duplicate and reorder datagrams.

  Node A makes any number of \<open>SendMessage\<close> calls to B, which may overlap, as they do in the program:
  it answers every multicast with an acknowledgement of its own. A step of the system is one critical
  section or one loop iteration of one goroutine: the first critical section of \<open>send\<close>, one
  transmission, one check after the sleep, one iteration of a listener, one turn of an
  \<open>ackListener\<close>. A datagram that was ever written may arrive any number of times, at any
  later moment, or never. The channels between the goroutines of a node are queues.
\<close>

section \<open>A node\<close>

record ReliableUnicast =
  ru_sender :: reliableSender
  ru_listener :: reliableListener
  ru_sAckChan :: "gostring list"
  ru_lAckChan :: "UMessage list"

definition NewReliableUnicast :: "gostring \<Rightarrow> ReliableUnicast" where
  "NewReliableUnicast serverUUID = \<lparr>ru_sender = new_sender serverUUID,
     ru_listener = new_listener serverUUID, ru_sAckChan = [], ru_lAckChan = []\<rparr>"

fun sAck_index :: "listener_effect \<Rightarrow> gostring list" where
  "sAck_index (SAck i) = [i]"
| "sAck_index _ = []"

fun lAck_message :: "listener_effect \<Rightarrow> UMessage list" where
  "lAck_message (LAck m) = [m]"
| "lAck_message _ = []"

text \<open>One iteration of the listener goroutine, with its effects on the node's channels.\<close>

definition node_receive ::
  "ReliableUnicast \<Rightarrow> gostring \<Rightarrow> bytes \<Rightarrow> (ReliableUnicast \<times> UMessage list) option" where
  "node_receive n ip datagram =
     (case listener_step (ru_listener n) ip datagram of
        None \<Rightarrow> None
      | Some (l, es) \<Rightarrow>
          Some (n\<lparr>ru_listener := l,
                  ru_sAckChan := ru_sAckChan n @ concat (map sAck_index es),
                  ru_lAckChan := ru_lAckChan n @ concat (map lAck_message es)\<rparr>,
                delivered es))"

section \<open>The link from A to B\<close>

text \<open>Where a call of A is: about to transmit, or asleep.\<close>

datatype phase = ToWrite gostring bytes | Sleeping gostring bytes

text \<open>
  \<open>at\<close> has the calls that have not returned yet; \<open>calls\<close> collects the payloads of all calls in the order of
  their frames, \<open>app\<close> what B's application received; \<open>failed\<close> says that some call returned false or panicked.
\<close>

record link =
  nodeA :: ReliableUnicast
  nodeB :: ReliableUnicast
  toB :: "bytes list"
  toA :: "bytes list"
  calls :: "bytes list"
  at :: "phase list"
  failed :: bool
  app :: "UMessage list"

definition link_init :: "gostring \<Rightarrow> gostring \<Rightarrow> link \<Rightarrow> bool" where
  "link_init a b s \<longleftrightarrow> s = \<lparr>nodeA = NewReliableUnicast a, nodeB = NewReliableUnicast b,
     toB = [], toA = [], calls = [], at = [], failed = False, app = []\<rparr>"

text \<open>A payload that is not empty and fits the datagram buffer of the listener.\<close>

definition payload_ok :: "bytes \<Rightarrow> bool" where
  "payload_ok data \<longleftrightarrow> data \<noteq> [] \<and> length data \<le> 934"

definition without :: "nat \<Rightarrow> 'a list \<Rightarrow> 'a list" where
  "without k xs = take k xs @ drop (Suc k) xs"

inductive link_step :: "gostring \<Rightarrow> gostring \<Rightarrow> gostring \<Rightarrow> gostring \<Rightarrow> link \<Rightarrow> link \<Rightarrow> bool"
  for a b ipA ipB where
  step_call: "send_begin (ru_sender (nodeA s)) ipB b data = (tx, i, enc) \<Longrightarrow>
    link_step a b ipA ipB s
      (s\<lparr>nodeA := (nodeA s)\<lparr>ru_sender := tx\<rparr>, at := at s @ [ToWrite i enc], calls := calls s @ [data]\<rparr>)"
| step_write: "k < length (at s) \<Longrightarrow> at s ! k = ToWrite i enc \<Longrightarrow>
    link_step a b ipA ipB s (s\<lparr>toB := enc # toB s, at := (at s)[k := Sleeping i enc]\<rparr>)"
| step_write_error: "k < length (at s) \<Longrightarrow> at s ! k = ToWrite i enc \<Longrightarrow>
    link_step a b ipA ipB s
      (s\<lparr>nodeA := (nodeA s)\<lparr>ru_sender := handleDeadNode (ru_sender (nodeA s)) b\<rparr>,
         at := without k (at s), failed := True\<rparr>)"
| step_check_running: "k < length (at s) \<Longrightarrow> at s ! k = Sleeping i enc \<Longrightarrow>
    send_check (ru_sender (nodeA s)) ipB b i enc = (tx, SendRunning enc') \<Longrightarrow>
    link_step a b ipA ipB s
      (s\<lparr>nodeA := (nodeA s)\<lparr>ru_sender := tx\<rparr>, at := (at s)[k := ToWrite i enc']\<rparr>)"
| step_check_true: "k < length (at s) \<Longrightarrow> at s ! k = Sleeping i enc \<Longrightarrow>
    send_check (ru_sender (nodeA s)) ipB b i enc = (tx, SendTrue) \<Longrightarrow>
    link_step a b ipA ipB s (s\<lparr>nodeA := (nodeA s)\<lparr>ru_sender := tx\<rparr>, at := without k (at s)\<rparr>)"
| step_check_stop: "k < length (at s) \<Longrightarrow> at s ! k = Sleeping i enc \<Longrightarrow>
    send_check (ru_sender (nodeA s)) ipB b i enc = (tx, r) \<Longrightarrow> r = SendFalse \<or> r = SendPanic \<Longrightarrow>
    link_step a b ipA ipB s
      (s\<lparr>nodeA := (nodeA s)\<lparr>ru_sender := tx\<rparr>, at := without k (at s), failed := True\<rparr>)"
| step_receiveB: "d \<in> set (toB s) \<Longrightarrow> node_receive (nodeB s) ipA d = Some (n, ms) \<Longrightarrow>
    link_step a b ipA ipB s (s\<lparr>nodeB := n, app := app s @ ms\<rparr>)"
| step_ackB: "ru_lAckChan (nodeB s) = m # rest \<Longrightarrow>
    ackListener_step (ru_sender (nodeB s)) (LAckChan m) = (tx, out) \<Longrightarrow>
    link_step a b ipA ipB s
      (s\<lparr>nodeB := (nodeB s)\<lparr>ru_sender := tx, ru_lAckChan := rest\<rparr>, toA := map snd out @ toA s\<rparr>)"
| step_receiveA: "d \<in> set (toA s) \<Longrightarrow> node_receive (nodeA s) ipB d = Some (n, ms) \<Longrightarrow>
    link_step a b ipA ipB s (s\<lparr>nodeA := n\<rparr>)"
| step_ackA: "ru_sAckChan (nodeA s) = i # rest \<Longrightarrow>
    ackListener_step (ru_sender (nodeA s)) (SAckChan i) = (tx, out) \<Longrightarrow>
    link_step a b ipA ipB s
      (s\<lparr>nodeA := (nodeA s)\<lparr>ru_sender := tx, ru_sAckChan := rest\<rparr>\<rparr>)"

inductive_cases link_stepE: "link_step a b ipA ipB s t"

text \<open>The same system with a caller that makes its calls one after the other.\<close>

definition one_call :: "gostring \<Rightarrow> gostring \<Rightarrow> gostring \<Rightarrow> gostring \<Rightarrow> link \<Rightarrow> link \<Rightarrow> bool" where
  "one_call a b ipA ipB s t \<longleftrightarrow> link_step a b ipA ipB s t \<and> length (at t) \<le> 1"

section \<open>The invariant of the link\<close>

text \<open>The message of the \<open>k\<close>-th call, counted from 1.\<close>

definition frame_msg :: "gostring \<Rightarrow> gostring \<Rightarrow> gostring \<Rightarrow> bytes list \<Rightarrow> nat \<Rightarrow> UMessage" where
  "frame_msg a b ip cs k = \<lparr>u_Response = 0, u_Frame = of_nat k, u_Tries = 0, u_FromUUID = a,
     u_ToUUID = b, u_IP = ip, u_Message = cs ! (k - 1)\<rparr>"

definition data_datagram :: "gostring \<Rightarrow> gostring \<Rightarrow> gostring \<Rightarrow> bytes list \<Rightarrow> bytes \<Rightarrow> bool" where
  "data_datagram a b ip cs d \<longleftrightarrow>
     (\<exists>k t. 1 \<le> k \<and> k \<le> length cs \<and> d = attempt (frame_msg a b ip cs k) t)"

definition good_ack :: "gostring \<Rightarrow> gostring \<Rightarrow> nat \<Rightarrow> UMessage \<Rightarrow> bool" where
  "good_ack a b j m \<longleftrightarrow> u_Response m = 1 \<and> u_FromUUID m = b \<and> u_ToUUID m = a \<and>
     (\<exists>k. 1 \<le> k \<and> k \<le> j \<and> u_Frame m = of_nat k)"

definition good_index :: "gostring \<Rightarrow> nat \<Rightarrow> gostring \<Rightarrow> bool" where
  "good_index b j i \<longleftrightarrow> (\<exists>k. 1 \<le> k \<and> k \<le> j \<and> i = frame_index b (of_nat k))"

definition busy ::
  "gostring \<Rightarrow> gostring \<Rightarrow> gostring \<Rightarrow> bytes list \<Rightarrow> nat \<Rightarrow> (gostring, bool) fmap \<Rightarrow> gostring \<Rightarrow>
   bytes \<Rightarrow> bool" where
  "busy a b ip cs j pending i enc \<longleftrightarrow> cs \<noteq> [] \<and> i = frame_index b (of_nat (length cs)) \<and>
     (\<exists>t \<le> 20. enc = attempt (frame_msg a b ip cs (length cs)) t) \<and>
     (fmlookup pending i \<noteq> None \<or> j = length cs)"

definition nodes_ok :: "gostring \<Rightarrow> gostring \<Rightarrow> link \<Rightarrow> bool" where
  "nodes_ok a b s \<longleftrightarrow>
     rs_uuid (ru_sender (nodeA s)) = a \<and> rl_uuid (ru_listener (nodeA s)) = a \<and>
     rl_uuid (ru_listener (nodeB s)) = b \<and> rl_msgBuf (ru_listener (nodeB s)) = fmempty \<and>
     map_get 0 (rs_peerFrame (ru_sender (nodeA s))) b = of_nat (length (calls s)) \<and>
     last_frame (ru_listener (nodeB s)) a = of_nat (length (app s))"

definition app_ok :: "link \<Rightarrow> bool" where
  "app_ok s \<longleftrightarrow> list_all payload_ok (calls s) \<and>
     map u_Message (app s) = take (length (app s)) (calls s) \<and>
     length (app s) \<le> length (calls s) \<and> length (calls s) \<le> Suc (length (app s))"

definition wires_ok :: "gostring \<Rightarrow> gostring \<Rightarrow> gostring \<Rightarrow> link \<Rightarrow> bool" where
  "wires_ok a b ip s \<longleftrightarrow>
     list_all (data_datagram a b ip (calls s)) (toB s) \<and>
     list_all (\<lambda>d. \<exists>m. good_ack a b (length (app s)) m \<and> d = encodeUnicastMessage m) (toA s) \<and>
     list_all (good_ack a b (length (app s))) (ru_lAckChan (nodeB s)) \<and>
     list_all (good_index b (length (app s))) (ru_sAckChan (nodeA s))"

definition phase_ok :: "gostring \<Rightarrow> gostring \<Rightarrow> gostring \<Rightarrow> link \<Rightarrow> bool" where
  "phase_ok a b ip s \<longleftrightarrow>
     (case at s of
        [] \<Rightarrow> length (app s) = length (calls s)
      | ToWrite i enc # rest \<Rightarrow> rest = [] \<and>
          busy a b ip (calls s) (length (app s)) (rs_ackFrame (ru_sender (nodeA s))) i enc
      | Sleeping i enc # rest \<Rightarrow> rest = [] \<and>
          busy a b ip (calls s) (length (app s)) (rs_ackFrame (ru_sender (nodeA s))) i enc)"

definition link_ok :: "gostring \<Rightarrow> gostring \<Rightarrow> gostring \<Rightarrow> link \<Rightarrow> bool" where
  "link_ok a b ip s \<longleftrightarrow> nodes_ok a b s \<and> app_ok s \<and> wires_ok a b ip s \<and> phase_ok a b ip s"

lemmas link_ok_defs = link_ok_def nodes_ok_def app_ok_def wires_ok_def phase_ok_def

text \<open>
  The counters are 64 bits wide, so the invariant speaks of runs with fewer calls than that;
  and it ends with the first call that fails.
\<close>

definition in_range :: "link \<Rightarrow> bool" where
  "in_range s \<longleftrightarrow> Suc (length (calls s)) < 2 ^ 64"

lemma call_payload_ok: "list_all payload_ok cs \<Longrightarrow> 1 \<le> k \<Longrightarrow> k \<le> length cs \<Longrightarrow> payload_ok (cs ! (k - 1))"
  by (simp add: list_all_length)

lemma frame_msg_sendable: "list_all payload_ok cs \<Longrightarrow> 1 \<le> k \<Longrightarrow> k \<le> length cs \<Longrightarrow>
   sendable (frame_msg a b ip cs k)"
  using call_payload_ok [of cs k]
  by (simp add: sendable_def frame_msg_def payload_ok_def max_alloc_def)

lemma attempt_fits: "list_all payload_ok cs \<Longrightarrow> 1 \<le> k \<Longrightarrow> k \<le> length cs \<Longrightarrow>
   length (attempt (frame_msg a b ip cs k) t) \<le> 1024"
  using call_payload_ok [of cs k]
  by (simp add: attempt_def length_encodeUnicast frame_msg_def payload_ok_def)

lemma frame_msg_snoc: "k \<le> length cs \<Longrightarrow> 1 \<le> k \<Longrightarrow>
   frame_msg a b ip (cs @ [d]) k = frame_msg a b ip cs k"
  by (auto simp: frame_msg_def nth_append)

lemma data_datagram_snoc: "data_datagram a b ip cs d \<Longrightarrow> data_datagram a b ip (cs @ [x]) d"
  by (fastforce simp: data_datagram_def frame_msg_snoc)

lemma good_ack_mono: "good_ack a b j m \<Longrightarrow> j \<le> j' \<Longrightarrow> good_ack a b j' m"
  by (auto simp: good_ack_def)

lemma good_index_mono: "good_index b j i \<Longrightarrow> j \<le> j' \<Longrightarrow> good_index b j' i"
  by (auto simp: good_index_def)

lemma of_nat_u64_inject: "m < 2 ^ 64 \<Longrightarrow> n < 2 ^ 64 \<Longrightarrow> (of_nat m :: u64) = of_nat n \<longleftrightarrow> m = n"
  by (simp add: word_unat_eq_iff unat_of_nat)

lemma of_nat_u64_less: "m < 2 ^ 64 \<Longrightarrow> n < 2 ^ 64 \<Longrightarrow> (of_nat m :: u64) < of_nat n \<longleftrightarrow> m < n"
  by (simp add: word_less_nat_alt unat_of_nat)

subsection \<open>The steps of the sending goroutine\<close>

lemma link_ok_call:
  assumes "link_ok a b ip s" "at s = []" "payload_ok data"
    and "send_begin (ru_sender (nodeA s)) ip b data = (tx, i, enc)"
  shows "link_ok a b ip
    (s\<lparr>nodeA := (nodeA s)\<lparr>ru_sender := tx\<rparr>, at := [ToWrite i enc], calls := calls s @ [data]\<rparr>)"
proof -
  let ?tx0 = "ru_sender (nodeA s)" and ?n = "length (calls s)"
  have ok: "nodes_ok a b s" "app_ok s" "wires_ok a b ip s" "length (app s) = ?n"
    using assms(1,2) by (simp_all add: link_ok_def phase_ok_def)
  have out: "outgoing ?tx0 ip b data = frame_msg a b ip (calls s @ [data]) (Suc ?n)"
    using ok(1) by (simp add: outgoing_def frame_msg_def nodes_ok_def add.commute)
  have tx: "rs_uuid tx = a" "map_get 0 (rs_peerFrame tx) b = of_nat (Suc ?n)"
    "fmlookup (rs_ackFrame tx) i \<noteq> None"
    and i: "i = frame_index b (of_nat (Suc ?n))"
    using assms(4) ok(1) out by (auto simp: send_begin_def Let_def nodes_ok_def frame_msg_def)
  have enc: "enc = attempt (frame_msg a b ip (calls s @ [data]) (Suc ?n)) 0"
    using send_begin_attempt [OF assms(4)] out by simp
  show ?thesis
    using ok assms(3) tx i enc
    by (auto simp: link_ok_defs busy_def list_all_iff data_datagram_snoc intro!: exI [of _ "0::nat"])
qed

lemma link_ok_write:
  assumes "link_ok a b ip s" "at s = [ToWrite i enc]"
  shows "link_ok a b ip (s\<lparr>toB := enc # toB s, at := [Sleeping i enc]\<rparr>)"
proof -
  have "busy a b ip (calls s) (length (app s)) (rs_ackFrame (ru_sender (nodeA s))) i enc"
    using assms by (simp add: link_ok_def phase_ok_def)
  then have "data_datagram a b ip (calls s) enc"
    unfolding busy_def data_datagram_def by (metis One_nat_def Suc_leI length_greater_0_conv order_refl)
  then show ?thesis using assms by (simp add: link_ok_defs)
qed

lemma link_ok_running:
  assumes "link_ok a b ip s" "at s = [Sleeping i enc]"
    and "send_check (ru_sender (nodeA s)) ip b i enc = (tx, SendRunning enc')"
  shows "link_ok a b ip (s\<lparr>nodeA := (nodeA s)\<lparr>ru_sender := tx\<rparr>, at := [ToWrite i enc']\<rparr>)"
proof -
  have busy: "busy a b ip (calls s) (length (app s)) (rs_ackFrame (ru_sender (nodeA s))) i enc"
    and pl: "list_all payload_ok (calls s)"
    using assms(1,2) by (simp_all add: link_ok_def phase_ok_def app_ok_def)
  let ?m = "frame_msg a b ip (calls s) (length (calls s))"
  obtain t where t: "t \<le> 20" "enc = attempt ?m t" and ne: "calls s \<noteq> []"
    using busy by (auto simp: busy_def)
  have "sendable ?m" using ne by (intro frame_msg_sendable [OF pl]) (simp_all add: Suc_leI)
  then have tx: "tx = ru_sender (nodeA s)" and "enc' = attempt ?m (Suc t)" "Suc t \<le> 20"
    using assms(3) t by (auto simp: send_check_attempt split: if_splits)
  then have "busy a b ip (calls s) (length (app s)) (rs_ackFrame tx) i enc'"
    using busy unfolding busy_def by blast
  then show ?thesis
    using assms(1,2) tx by (simp add: link_ok_defs)
qed

lemma link_ok_true:
  assumes "link_ok a b ip s" "at s = [Sleeping i enc]"
    and "send_check (ru_sender (nodeA s)) ip b i enc = (tx, SendTrue)"
  shows "link_ok a b ip (s\<lparr>nodeA := (nodeA s)\<lparr>ru_sender := tx\<rparr>, at := []\<rparr>)"
proof -
  have "fmlookup (rs_ackFrame (ru_sender (nodeA s))) i = None" "tx = ru_sender (nodeA s)"
    using assms(3) by (auto simp: send_check_def split: if_splits sum.splits)
  then show ?thesis using assms(1,2) by (auto simp: link_ok_defs busy_def)
qed

subsection \<open>The steps of the listeners\<close>

text \<open>What B's listener does with a datagram of the \<open>k\<close>-th call.\<close>

lemma receiveB_stale:
  assumes "is_data l m" "u_Frame m = of_nat k" "u_FromUUID m = a" "last_frame l a = of_nat j"
    and "k \<le> j" "Suc j < 2 ^ 64"
  shows "receive l m = (touch l a, [LAck (ack_for l m)])"
proof -
  have "(of_nat k :: u64) < of_nat (Suc j)"
    using assms(5,6) by (subst of_nat_u64_less) simp_all
  then have "u_Frame m < last_frame l (u_FromUUID m) + 1"
    using assms(2-4) by (simp add: add.commute)
  then show ?thesis using receive_stale [OF assms(1)] assms(3) by simp
qed

lemma receiveB_next:
  assumes "is_data l m" "u_Frame m = of_nat (Suc j)" "u_FromUUID m = a" "last_frame l a = of_nat j"
    and "rl_msgBuf l = fmempty"
  shows "receive l m = (advance l a, [LAck (ack_for l m), ToApp m])"
proof -
  have "drain (advance l a) a = (advance l a, [])" by (simp add: drain_eq assms(5))
  then show ?thesis using receive_next [OF assms(1)] assms(2-4) by (simp add: add.commute)
qed

lemma link_ok_receiveB:
  assumes "link_ok a b ip s" "in_range s" "length a = 36" "length b = 36"
    and "d \<in> set (toB s)" "node_receive (nodeB s) ipA d = Some (n, ms)"
  shows "link_ok a b ip (s\<lparr>nodeB := n, app := app s @ ms\<rparr>)"
proof -
  let ?l = "ru_listener (nodeB s)" and ?j = "length (app s)"
  have ok: "nodes_ok a b s" "app_ok s" "wires_ok a b ip s" "phase_ok a b ip s"
    using assms(1) by (simp_all add: link_ok_def)
  obtain k t where k: "1 \<le> k" "k \<le> length (calls s)"
    and d: "d = attempt (frame_msg a b ip (calls s) k) t"
    using ok(3) assms(5) by (auto simp: wires_ok_def list_all_iff data_datagram_def)
  define m where "m = (canonical_umessage ipA (frame_msg a b ip (calls s) k))\<lparr>u_Tries := of_nat t\<rparr>"
  have pl: "list_all payload_ok (calls s)" using ok(2) by (simp add: app_ok_def)
  have m: "u_Frame m = of_nat k" "u_FromUUID m = a" "u_ToUUID m = b" "u_Response m = 0"
    "u_Message m = calls s ! (k - 1)"
    using assms(3,4) by (simp_all add: m_def) (simp_all add: canonical_umessage_def frame_msg_def)
  have "decodeUnicastMessage (recv_buf d) ipA = Inr m"
    unfolding d m_def by (simp add: attempt_fits [OF pl k] decode_attempt frame_msg_sendable [OF pl k])
  then have n: "n = (nodeB s)\<lparr>ru_listener := fst (receive ?l m),
        ru_sAckChan := ru_sAckChan (nodeB s) @ concat (map sAck_index (snd (receive ?l m))),
        ru_lAckChan := ru_lAckChan (nodeB s) @ concat (map lAck_message (snd (receive ?l m)))\<rparr>"
    and ms: "ms = delivered (snd (receive ?l m))"
    using assms(6) by (auto simp: node_receive_def listener_step_def split: prod.splits)
  have data: "is_data ?l m" using ok(1) m by (simp add: is_data_def nodes_ok_def)
  have ack: "good_ack a b j' (ack_for ?l m)" if "k \<le> j'" for j'
    using m k(1) that ok(1) by (auto simp: good_ack_def ack_for_def nodes_ok_def)
  have last: "last_frame ?l a = of_nat ?j" and emp: "rl_msgBuf ?l = fmempty"
    using ok(1) by (simp_all add: nodes_ok_def)
  show ?thesis
  proof (cases "k \<le> ?j")
    case True
    have "Suc ?j < 2 ^ 64" using ok(2) assms(2) by (simp add: app_ok_def in_range_def)
    from receiveB_stale [OF data m(1,2) last True this]
    show ?thesis
      using ok n ms ack [OF True] by (auto simp: link_ok_defs split: list.splits phase.splits)
  next
    case False
    then have kj: "k = Suc ?j" "length (calls s) = Suc ?j"
      using k ok(2) by (auto simp: app_ok_def)
    from receiveB_next [OF data _ m(2) last emp] m(1) kj(1)
    have r: "receive ?l m = (advance ?l a, [LAck (ack_for ?l m), ToApp m])" by simp
    have "map u_Message (app s @ [m]) = take (Suc ?j) (calls s)"
      using ok(2) kj m(5) take_Suc_conv_app_nth [of ?j "calls s"] by (simp add: app_ok_def)
    moreover have "ack_for ?l m \<in> {x. good_ack a b (Suc ?j) x}" using ack kj(1) by simp
    moreover have "at s \<noteq> []" using ok(4) kj(2) by (auto simp: phase_ok_def)
    ultimately show ?thesis
      using ok n ms r kj(2)
      by (auto simp: link_ok_defs list_all_iff busy_def
          intro: good_ack_mono good_index_mono split: list.splits phase.splits)
        (meson good_ack_mono good_index_mono le_SucI order_refl)+
  qed
qed

lemma link_ok_ackB:
  assumes "link_ok a b ip s" "ru_lAckChan (nodeB s) = m # rest"
    and "ackListener_step (ru_sender (nodeB s)) (LAckChan m) = (tx, out)"
  shows "link_ok a b ip
    (s\<lparr>nodeB := (nodeB s)\<lparr>ru_sender := tx, ru_lAckChan := rest\<rparr>, toA := map snd out @ toA s\<rparr>)"
  using assms by (auto simp: link_ok_defs split: list.splits phase.splits)

lemma receive_ack:
  "u_ToUUID m = rl_uuid l \<Longrightarrow> u_Response m = 1 \<Longrightarrow>
   receive l m = (l, [SAck (frame_index (u_FromUUID m) (u_Frame m))])"
  by (simp add: receive_def Let_def)

lemma link_ok_receiveA:
  assumes "link_ok a b ip s" "length a = 36" "length b = 36"
    and "d \<in> set (toA s)" "node_receive (nodeA s) ipB d = Some (n, ms)"
  shows "link_ok a b ip (s\<lparr>nodeA := n\<rparr>)"
proof -
  have ok: "nodes_ok a b s" "app_ok s" "wires_ok a b ip s" "phase_ok a b ip s"
    using assms(1) by (simp_all add: link_ok_def)
  obtain m where m: "good_ack a b (length (app s)) m" "d = encodeUnicastMessage m"
    using ok(3) assms(4) by (auto simp: wires_ok_def list_all_iff)
  have r1: "u_Response m = 1" and len: "length d \<le> 1024"
    using m by (simp_all add: good_ack_def length_encodeUnicast)
  let ?c = "canonical_umessage ipB m"
  have c: "u_ToUUID ?c = a" "u_FromUUID ?c = b" "u_Response ?c = 1"
    using m(1) assms(2,3) by (simp_all add: good_ack_def) (simp add: canonical_umessage_def)
  have "receive (ru_listener (nodeA s)) ?c = (ru_listener (nodeA s), [SAck (frame_index b (u_Frame m))])"
    using c ok(1) by (simp add: receive_ack nodes_ok_def)
  then have n: "n = (nodeA s)\<lparr>ru_sAckChan := ru_sAckChan (nodeA s) @ [frame_index b (u_Frame m)]\<rparr>"
    using assms(5) len decode_encode_ack [OF r1, of ipB] m(2)
    by (auto simp: node_receive_def listener_step_def)
  have "good_index b (length (app s)) (frame_index b (u_Frame m))"
    using m(1) by (auto simp: good_ack_def good_index_def)
  then show ?thesis using ok n by (auto simp: link_ok_defs split: list.splits phase.splits)
qed

lemma link_ok_ackA:
  assumes "link_ok a b ip s" "in_range s" "ru_sAckChan (nodeA s) = i # rest"
    and "ackListener_step (ru_sender (nodeA s)) (SAckChan i) = (tx, out)"
  shows "link_ok a b ip (s\<lparr>nodeA := (nodeA s)\<lparr>ru_sender := tx, ru_sAckChan := rest\<rparr>\<rparr>)"
proof -
  let ?n = "length (calls s)" and ?j = "length (app s)"
  obtain k where k: "1 \<le> k" "k \<le> ?j" "i = frame_index b (of_nat k)"
    using assms(1,3) by (auto simp: link_ok_defs good_index_def)
  have j: "?j \<le> ?n" "Suc ?n < 2 ^ 64" using assms(1,2) by (simp_all add: link_ok_defs in_range_def)
  have tx: "tx = (ru_sender (nodeA s))\<lparr>rs_ackFrame := fmdrop i (rs_ackFrame (ru_sender (nodeA s)))\<rparr>"
    using assms(4) by simp
  have "busy a b ip (calls s) ?j (rs_ackFrame tx) i' enc"
    if "busy a b ip (calls s) ?j (rs_ackFrame (ru_sender (nodeA s))) i' enc" for i' enc
  proof (cases "i' = i")
    case True
    then have "(of_nat k :: u64) = of_nat ?n" using that k(3) by (simp add: busy_def)
    then have "k = ?n" using of_nat_u64_inject [of k ?n] k j by simp
    then have "?j = ?n" using k j by simp
    then show ?thesis using that by (simp add: busy_def)
  next
    case False
    then show ?thesis using that tx by (auto simp: busy_def)
  qed
  then show ?thesis
    using assms(1,3) tx by (auto simp: link_ok_defs split: list.splits phase.splits)
qed

section \<open>Every reachable state\<close>

definition link_inv :: "gostring \<Rightarrow> gostring \<Rightarrow> gostring \<Rightarrow> link \<Rightarrow> bool" where
  "link_inv a b ip s \<longleftrightarrow>
     (length a = 36 \<and> length b = 36 \<and> \<not> failed s \<and> in_range s \<and> list_all payload_ok (calls s) \<longrightarrow> link_ok a b ip s)"

lemma link_inv_init: "link_init a b s \<Longrightarrow> link_inv a b ip s"
  by (simp add: link_init_def link_inv_def link_ok_defs NewReliableUnicast_def new_sender_def
      new_listener_def last_frame_def)

lemma phase_ok_single: "phase_ok a b ip s \<Longrightarrow> k < length (at s) \<Longrightarrow> k = 0 \<and> at s = [at s ! 0]"
  by (auto simp: phase_ok_def split: list.splits phase.splits)

lemma link_ok_step:
  assumes "one_call a b ipA ipB s t" "link_ok a b ipB s" "\<not> failed t" "in_range s" "list_all payload_ok (calls t)"
    and "length a = 36" "length b = 36"
  shows "link_ok a b ipB t"
proof -
  have single: "k = 0" "at s = [at s ! 0]" if "k < length (at s)" for k
    using phase_ok_single [OF _ that] assms(2) by (auto simp: link_ok_def)
  have step: "link_step a b ipA ipB s t" and one: "length (at t) \<le> 1"
    using assms(1) by (simp_all add: one_call_def)
  from step show ?thesis
  proof cases
    case (step_call data tx i enc)
    then have "at s = []" "payload_ok data" using one assms(5) by simp_all
    then show ?thesis using link_ok_call [OF assms(2)] step_call by simp
  next
    case (step_write k i enc)
    then have "at s = [ToWrite i enc]" "k = 0" using single by metis+
    then show ?thesis using link_ok_write [OF assms(2)] step_write by simp
  next
    case (step_check_running k i enc tx enc')
    then have "at s = [Sleeping i enc]" "k = 0" using single by metis+
    then show ?thesis using link_ok_running [OF assms(2)] step_check_running by simp
  next
    case (step_check_true k i enc tx)
    then have "at s = [Sleeping i enc]" "k = 0" using single by metis+
    then show ?thesis using link_ok_true [OF assms(2)] step_check_true by (simp add: without_def)
  qed (use assms in \<open>simp_all add: link_ok_receiveB link_ok_ackB link_ok_receiveA link_ok_ackA\<close>)
qed

lemma link_inv_step:
  assumes "one_call a b ipA ipB s t" "link_inv a b ipB s"
  shows "link_inv a b ipB t"
proof -
  have "link_step a b ipA ipB s t" using assms(1) by (simp add: one_call_def)
  then have "failed s \<longrightarrow> failed t" "in_range t \<longrightarrow> in_range s" "list_all payload_ok (calls t) \<longrightarrow> list_all payload_ok (calls s)"
    by (auto simp: in_range_def elim: link_stepE)
  then show ?thesis using link_ok_step [OF assms(1)] assms(2) unfolding link_inv_def by blast
qed

interpretation unicast_link:
  invariant_system "link_init a b" "one_call a b ipA ipB" "link_inv a b ipB" for a b ipA ipB
  by unfold_locales (simp_all add: link_inv_init link_inv_step)

section \<open>Properties\<close>

text \<open>
  C5: over a network that loses, duplicates and reorders datagrams, reliable unicast is an exactly-once
  in-order channel for a node that makes its calls to a peer one after the other, with payloads of 1 to
  934 bytes, as long as none of its calls has failed: the payloads that B's application received are
  the payloads of the calls, in order, except possibly the last one while its call is running. (For
  overlapping calls, longer payloads and after a failed call this is false; other theorems show
  how it goes wrong then.)
\<close>

theorem unicast_exactly_once_in_order:
  assumes "reach (link_init a b) (one_call a b ipA ipB) s" "length a = 36" "length b = 36"
    and "\<not> failed s" "list_all payload_ok (calls s)" "Suc (length (calls s)) < 2 ^ 64"
  shows "map u_Message (app s) = calls s \<or>
    (length (at s) = 1 \<and> calls s \<noteq> [] \<and> map u_Message (app s) = butlast (calls s))"
proof -
  have "link_ok a b ipB s"
    using unicast_link.reach_inv [OF assms(1)] assms(2-6) by (simp add: link_inv_def in_range_def)
  then have "map u_Message (app s) = take (length (app s)) (calls s)"
    "length (app s) = length (calls s) \<or> length (at s) = 1 \<and> length (calls s) = Suc (length (app s))"
    by (auto simp: link_ok_def app_ok_def phase_ok_def split: list.splits phase.splits)
  then show ?thesis by (auto simp: butlast_conv_take)
qed

text \<open>
  C6: for a node that makes its calls one after the other, with payloads of 1 to 934 bytes, a call that
  has returned true has delivered its message: whenever no call is running and none has failed so
  far, everything that was sent has reached B's application, exactly once and in order. (After a failed
  call, true no longer means delivered.)
\<close>

theorem unicast_success_means_delivered:
  assumes "reach (link_init a b) (one_call a b ipA ipB) s" "length a = 36" "length b = 36"
    and "\<not> failed s" "list_all payload_ok (calls s)" "at s = []" "Suc (length (calls s)) < 2 ^ 64"
  shows "map u_Message (app s) = calls s"
proof -
  have "link_ok a b ipB s"
    using unicast_link.reach_inv [OF assms(1)] assms(2-7) by (simp add: link_inv_def in_range_def)
  then show ?thesis using assms(6) by (auto simp: link_ok_def app_ok_def phase_ok_def)
qed

section \<open>A complete run\<close>

text \<open>One call, its delivery, its acknowledgement and its return, as a run of the system.\<close>

definition sample_ack :: "gostring \<Rightarrow> gostring \<Rightarrow> gostring \<Rightarrow> UMessage" where
  "sample_ack a b ipA = \<lparr>u_Response = 1, u_Frame = 1, u_Tries = 0, u_FromUUID = b, u_ToUUID = a,
     u_IP = ipA, u_Message = []\<rparr>"

lemma sample_receiveB:
  assumes "length a = 36" "length b = 36" "payload_ok data"
  shows "node_receive (NewReliableUnicast b) ipA (attempt (frame_msg a b ipB [data] 1) 0) =
     Some ((NewReliableUnicast b)\<lparr>ru_listener := advance (new_listener b) a,
             ru_lAckChan := [sample_ack a b ipA]\<rparr>,
           [canonical_umessage ipA (frame_msg a b ipB [data] 1)])"
proof -
  let ?f = "frame_msg a b ipB [data] 1" and ?l = "new_listener b"
  let ?m = "(canonical_umessage ipA ?f)\<lparr>u_Tries := of_nat 0\<rparr>"
  have m: "?m = canonical_umessage ipA ?f" by (simp add: canonical_umessage_def frame_msg_def)
  have f: "sendable ?f" "length (attempt ?f 0) \<le> 1024"
    using assms(3) frame_msg_sendable [of "[data]" 1] attempt_fits [of "[data]" 1] by simp_all
  have "receive ?l ?m = (advance ?l a, [LAck (ack_for ?l ?m), ToApp ?m])"
    by (rule receiveB_next [where j = 0])
      (use assms in \<open>simp_all add: is_data_def canonical_umessage_def frame_msg_def new_listener_def
        last_frame_def\<close>)
  then show ?thesis
    using f(2) decode_attempt [OF f(1), of 0 ipA] assms(1,2)
    unfolding m
    by (simp add: node_receive_def listener_step_def NewReliableUnicast_def sample_ack_def ack_for_def)
      (simp add: canonical_umessage_def frame_msg_def new_listener_def)
qed

lemma one_call_reach:
  assumes "reach I (one_call a b ipA ipB) s" "link_step a b ipA ipB s t" "t = t'" "length (at t') \<le> 1"
  shows "reach I (one_call a b ipA ipB) t'"
proof -
  have "one_call a b ipA ipB s t'" using assms(2-4) by (simp add: one_call_def)
  with assms(1) show ?thesis by (rule reach_step)
qed

lemma sample_run:
  assumes "length a = 36" "length b = 36" "payload_ok data"
  shows "\<exists>s. reach (link_init a b) (one_call a b ipA ipB) s \<and> at s = [] \<and> \<not> failed s \<and>
             calls s = [data]"
proof -
  let ?R = "reach (link_init a b) (one_call a b ipA ipB)"
  let ?f = "frame_msg a b ipB [data] 1" and ?i = "frame_index b 1"
  let ?enc = "attempt ?f 0"
  define s0 where "s0 = \<lparr>nodeA = NewReliableUnicast a, nodeB = NewReliableUnicast b,
     toB = [], toA = [], calls = [], at = [], failed = False, app = []\<rparr>"
  define tx1 where "tx1 = \<lparr>rs_uuid = a, rs_msgBuf = fmupd ?i ?f fmempty,
     rs_peerFrame = fmupd b 1 fmempty, rs_ackFrame = fmupd ?i False fmempty\<rparr>"
  define s1 where "s1 = s0\<lparr>nodeA := (nodeA s0)\<lparr>ru_sender := tx1\<rparr>, at := [ToWrite ?i ?enc],
     calls := calls s0 @ [data]\<rparr>"
  define s2 where "s2 = s1\<lparr>toB := ?enc # toB s1, at := [Sleeping ?i ?enc]\<rparr>"
  define s3 where "s3 = s2\<lparr>nodeB := (nodeB s2)\<lparr>ru_listener := advance (new_listener b) a,
     ru_lAckChan := [sample_ack a b ipA]\<rparr>, app := app s2 @ [canonical_umessage ipA ?f]\<rparr>"
  define s4 where "s4 = s3\<lparr>nodeB := (nodeB s3)\<lparr>ru_sender := ru_sender (nodeB s3), ru_lAckChan := []\<rparr>,
     toA := map snd [(ipA, encodeUnicastMessage (sample_ack a b ipA))] @ toA s3\<rparr>"
  define s5 where "s5 = s4\<lparr>nodeA := (nodeA s4)\<lparr>ru_sAckChan := [?i]\<rparr>\<rparr>"
  define tx6 where "tx6 = tx1\<lparr>rs_ackFrame := fmempty\<rparr>"
  define s6 where "s6 = s5\<lparr>nodeA := (nodeA s5)\<lparr>ru_sender := tx6, ru_sAckChan := []\<rparr>\<rparr>"
  define s7 where "s7 = s6\<lparr>nodeA := (nodeA s6)\<lparr>ru_sender := tx6\<rparr>, at := []\<rparr>"
  have r0: "?R s0" by (rule reach_init) (simp add: link_init_def s0_def)
  have r1: "?R s1"
    unfolding s1_def
    by (rule one_call_reach [OF r0], rule step_call [where data = data and tx = tx1 and i = ?i and enc = ?enc])
      (use assms in \<open>simp_all add: s0_def NewReliableUnicast_def new_sender_def send_begin_def
        outgoing_def tx1_def attempt_def frame_msg_def Let_def\<close>)
  have r2: "?R s2"
    unfolding s2_def by (rule one_call_reach [OF r1], rule step_write [where k = 0 and i = ?i and enc = ?enc]) (simp_all add: s1_def s0_def)
  have r3: "?R s3"
    unfolding s3_def
    by (rule one_call_reach [OF r2], rule step_receiveB [where d = ?enc and n = "(nodeB s2)\<lparr>ru_listener := advance (new_listener b) a,
            ru_lAckChan := [sample_ack a b ipA]\<rparr>" and ms = "[canonical_umessage ipA ?f]"])
      (use sample_receiveB [OF assms, of ipA ipB] in \<open>simp_all add: s2_def s1_def s0_def\<close>)
  have r4: "?R s4"
    unfolding s4_def
    by (rule one_call_reach [OF r3], rule step_ackB [where m = "sample_ack a b ipA" and rest = "[]" and tx = "ru_sender (nodeB s3)"
          and out = "[(ipA, encodeUnicastMessage (sample_ack a b ipA))]"])
      (simp_all add: s3_def s2_def s1_def sample_ack_def)
  have ack: "decodeUnicastMessage (encodeUnicastMessage (sample_ack a b ipA)) ipB =
      Inr (canonical_umessage ipB (sample_ack a b ipA))"
    by (rule decode_encode_ack) (simp add: sample_ack_def)
  have r5: "?R s5"
    unfolding s5_def
    by (rule one_call_reach [OF r4], rule step_receiveA
          [where d = "encodeUnicastMessage (sample_ack a b ipA)" and ms = "[]"
            and n = "(nodeA s4)\<lparr>ru_sAckChan := [?i]\<rparr>"])
      (use ack assms in \<open>simp_all add: s4_def s3_def s2_def s1_def s0_def node_receive_def
        listener_step_def length_encodeUnicast sample_ack_def receive_def canonical_umessage_def
        Let_def NewReliableUnicast_def new_listener_def\<close>)
  have r6: "?R s6"
    unfolding s6_def
    by (rule one_call_reach [OF r5], rule step_ackA [where i = ?i and out = "[]" and rest = "[]" and tx = tx6])
      (simp_all add: s5_def s4_def s3_def s2_def s1_def tx6_def tx1_def fmap_ext)
  have r7: "?R s7"
    unfolding s7_def
    by (rule one_call_reach [OF r6], rule step_check_true [where k = 0 and i = ?i and enc = ?enc and tx = tx6])
      (simp_all add: without_def s6_def s5_def s4_def s3_def s2_def send_check_def tx6_def)
  moreover have "at s7 = []" "\<not> failed s7" "calls s7 = [data]"
    by (simp_all add: s7_def s6_def s5_def s4_def s3_def s2_def s1_def s0_def)
  ultimately show ?thesis by blast
qed

theorem unicast_exactly_once_in_order_witness:
  "\<exists>s. reach (link_init (replicate 36 1) (replicate 36 2))
         (one_call (replicate 36 1) (replicate 36 2) [] []) s \<and> calls s = [[7]] \<and>
       (map u_Message (app s) = calls s \<or> (calls s \<noteq> [] \<and> map u_Message (app s) = butlast (calls s)))"
proof -
  obtain s where s: "reach (link_init (replicate 36 1) (replicate 36 2))
      (one_call (replicate 36 1) (replicate 36 2) [] []) s" "\<not> failed s" "calls s = [[7]]"
    using sample_run [of "replicate 36 1" "replicate 36 2" "[7]" "[]" "[]"]
    by (auto simp: payload_ok_def)
  have "list_all payload_ok (calls s)" using s(3) by (simp add: payload_ok_def)
  with unicast_exactly_once_in_order [OF s(1) _ _ s(2)] s show ?thesis by (intro exI [of _ s]) auto
qed

theorem unicast_success_means_delivered_witness:
  "\<exists>s. reach (link_init (replicate 36 1) (replicate 36 2))
         (one_call (replicate 36 1) (replicate 36 2) [] []) s \<and> at s = [] \<and>
       map u_Message (app s) = [[7]]"
proof -
  obtain s where s: "reach (link_init (replicate 36 1) (replicate 36 2))
      (one_call (replicate 36 1) (replicate 36 2) [] []) s" "at s = []" "\<not> failed s"
      "calls s = [[7]]"
    using sample_run [of "replicate 36 1" "replicate 36 2" "[7]" "[]" "[]"]
    by (auto simp: payload_ok_def)
  have "list_all payload_ok (calls s)" using s(4) by (simp add: payload_ok_def)
  with unicast_success_means_delivered [OF s(1) _ _ s(3) _ s(2)] s show ?thesis
    by (intro exI [of _ s]) simp
qed

text \<open>
  C35: a peer that was declared dead but is alive loses messages. The cleanup restarts the frames
  at 1, so the peer's listener takes the next message for a duplicate: it acknowledges it without
  delivering it, and the acknowledgement makes the call return true.
\<close>

theorem restart_after_false_death_loses_message:
  assumes "rs_uuid s = a" "rl_uuid lb = b" "rl_uuid la = a" "length a = 36" "length b = 36"
    and "payload_ok data" "last_frame lb a \<noteq> 0" "last_frame lb a + 1 \<noteq> 0"
    and "send_begin (handleDeadNode s b) ipB b data = (tx, i, enc)"
  shows "\<exists>lb' ack. listener_step lb ipA enc = Some (lb', [LAck ack]) \<and>
           listener_step la ipB (encodeUnicastMessage ack) = Some (la, [SAck i]) \<and>
           snd (send_check (fst (ackListener_step tx (SAckChan i))) ipB b i enc) = SendTrue"
proof -
  let ?f = "frame_msg a b ipB [data] 1"
  have out: "outgoing (handleDeadNode s b) ipB b data = ?f"
    using assms(1) by (simp add: outgoing_def handleDeadNode_def frame_msg_def)
  have enc: "enc = attempt ?f 0" and i: "i = frame_index b 1"
    using send_begin_attempt [OF assms(9)] out assms(9)
    by (auto simp: send_begin_def Let_def frame_msg_def)
  have f: "sendable ?f" "length enc \<le> 1024"
    using assms(6) frame_msg_sendable [of "[data]" 1] attempt_fits [of "[data]" 1] enc by simp_all
  let ?m = "(canonical_umessage ipA ?f)\<lparr>u_Tries := of_nat 0\<rparr>"
  have m: "is_data lb ?m" "u_FromUUID ?m = a" "u_Frame ?m = 1"
    using assms by (simp_all add: is_data_def) (simp_all add: canonical_umessage_def frame_msg_def)
  have "u_Frame ?m < last_frame lb (u_FromUUID ?m) + 1"
    using assms(7,8) m(2,3) by unat_arith
  then have recv: "listener_step lb ipA enc = Some (touch lb a, [LAck (ack_for lb ?m)])"
    using receive_stale [OF m(1)] decode_attempt [OF f(1), of 0 ipA] f(2) m(2) enc
    by (simp add: listener_step_def)
  let ?ack = "ack_for lb ?m"
  have ack: "u_Response ?ack = 1" "u_FromUUID ?ack = b" "u_ToUUID ?ack = a" "u_Frame ?ack = 1"
    using assms m by (simp_all add: ack_for_def)
  then have "receive la (canonical_umessage ipB ?ack) = (la, [SAck i])"
    using assms(3-5) i by (subst receive_ack) (simp_all add: canonical_umessage_def)
  then have "listener_step la ipB (encodeUnicastMessage ?ack) = Some (la, [SAck i])"
    using decode_encode_ack [OF ack(1), of ipB] ack(1)
    by (simp add: listener_step_def length_encodeUnicast)
  moreover have "snd (send_check (fst (ackListener_step tx (SAckChan i))) ipB b i enc) = SendTrue"
    by (simp add: send_check_def)
  ultimately show ?thesis using recv by blast
qed

theorem restart_after_false_death_loses_message_witness:
  "\<exists>lb' ack. listener_step (advance (new_listener (replicate 36 2)) (replicate 36 1)) []
       (attempt (outgoing (new_sender (replicate 36 1)) [] (replicate 36 2) [7]) 0) =
         Some (lb', [LAck ack]) \<and>
     listener_step (new_listener (replicate 36 1)) [] (encodeUnicastMessage ack) =
       Some (new_listener (replicate 36 1), [SAck (frame_index (replicate 36 2) 1)])"
proof -
  let ?a = "replicate 36 (1::u8)" and ?b = "replicate 36 (2::u8)"
  let ?s = "new_sender ?a"
  have dead: "handleDeadNode ?s ?b = ?s"
    by (auto simp: handleDeadNode_def new_sender_def intro!: fmap_ext)
  obtain tx i enc where sb: "send_begin (handleDeadNode ?s ?b) [] ?b [7] = (tx, i, enc)"
    by (metis prod_cases3)
  have "enc = attempt (outgoing ?s [] ?b [7]) 0"
    using send_begin_attempt [OF sb] dead by simp
  moreover have "i = frame_index ?b 1"
    using sb dead by (auto simp: send_begin_def Let_def outgoing_def new_sender_def)
  ultimately show ?thesis
    using restart_after_false_death_loses_message [OF _ _ _ _ _ _ _ _ sb, where
        lb = "advance (new_listener ?b) ?a" and la = "new_listener ?a" and ipA = "[]"]
    by (auto simp: new_sender_def new_listener_def payload_ok_def last_frame_def advance_def)
qed

end
