(* ===== verification/MulticastCodec.thy ===== *)
theory MulticastCodec
  imports GoBytes
begin

text \<open>
  The wire format of reliable multicast: the struct \<open>Message\<close>, \<open>encodeMulticastMessage\<close> and
  \<open>decodeMulticastMessage\<close> of \<^verbatim>\<open>server/multicast/multicast.go\<close>.

  The encoder walks the vector clock with \<open>range\<close>, whose order Go leaves open: the order is an
  argument of the model, any enumeration of the keys.
\<close>

section \<open>Messages and their encoding\<close>

record MMessage =
  mc_Frame :: u32
  mc_IP :: gostring
  mc_UUID :: gostring
  mc_VectorClock :: "(gostring, u32) fmap"
  mc_Message :: bytes

definition zero_mmessage :: MMessage where
  "zero_mmessage = \<lparr>mc_Frame = 0, mc_IP = [], mc_UUID = [], mc_VectorClock = fmempty,
     mc_Message = []\<rparr>"

text \<open>\<open>ks\<close> is an order in which \<open>range\<close> may walk the map.\<close>

definition range_order :: "'k list \<Rightarrow> ('k, 'v) fmap \<Rightarrow> bool" where
  "range_order ks m \<longleftrightarrow> distinct ks \<and> fset_of_list ks = fmdom m"

lemma range_order_exists: "\<exists>ks. range_order ks m"
proof -
  obtain ks where "set ks = fset (fmdom m)" "distinct ks" using finite_distinct_list [of "fset (fmdom m)"] by auto
  then have "range_order ks m"
    by (simp add: range_order_def fset_of_list.rep_eq flip: fset_inject)
  then show ?thesis ..
qed

definition put_clock :: "(gostring, u32) fmap \<Rightarrow> gostring \<Rightarrow> bytes" where
  "put_clock vc k = put_u32 (map_get 0 vc k) @ pad36 k"

definition encodeMulticastMessage :: "gostring list \<Rightarrow> MMessage \<Rightarrow> bytes" where
  "encodeMulticastMessage ks msg =
     put_u32 (mc_Frame msg) @ pad36 (mc_UUID msg) @
     put_u32 (of_nat (map_len (mc_VectorClock msg))) @
     concat (map (put_clock (mc_VectorClock msg)) ks) @
     put_u64 (of_nat (length (mc_Message msg))) @ mc_Message msg"

text \<open>
  The decoder reads every identifier into the same buffer. On an error the code returns a message
  in which at most the vector clock is filled in; no caller looks at it.
\<close>

fun decode_clocks ::
  "nat \<Rightarrow> bytes \<Rightarrow> (gostring, u32) fmap \<Rightarrow> bytes \<Rightarrow> io_error + (gostring, u32) fmap \<times> bytes" where
  "decode_clocks 0 uuidBytes vc r = Inr (vc, r)"
| "decode_clocks (Suc n) uuidBytes vc r =
     and_then (get_u32 r) (\<lambda>(clock, r).
     and_then (read_into uuidBytes r) (\<lambda>(uuidBytes, r).
       decode_clocks n uuidBytes (fmupd uuidBytes clock vc) r))"

definition decodeMulticastMessage :: "bytes \<Rightarrow> gostring \<Rightarrow> io_error + MMessage" where
  "decodeMulticastMessage data ip =
     and_then (get_u32 data) (\<lambda>(frame, r).
     and_then (read_into (zeros 36) r) (\<lambda>(uuidBytes, r).
     and_then (get_u32 r) (\<lambda>(vectorClockLen, r).
     and_then (decode_clocks (unat vectorClockLen) uuidBytes fmempty r) (\<lambda>(vc, r).
     and_then (get_u64 r) (\<lambda>(msgLen, r).
     and_then (read_new msgLen r) (\<lambda>(msg, r).
       Inr \<lparr>mc_Frame = frame, mc_IP = ip, mc_UUID = uuidBytes, mc_VectorClock = vc,
            mc_Message = msg\<rparr>))))))"

section \<open>Round trip\<close>

definition wf_mmessage :: "MMessage \<Rightarrow> bool" where
  "wf_mmessage m \<longleftrightarrow>
     fmpred (\<lambda>k c. length k = 36) (mc_VectorClock m) \<and>
     map_len (mc_VectorClock m) < 2 ^ 32 \<and>
     mc_Message m \<noteq> [] \<and> length (mc_Message m) \<le> max_alloc"

definition canonical_mmessage :: "gostring \<Rightarrow> MMessage \<Rightarrow> MMessage" where
  "canonical_mmessage ip m = m\<lparr>mc_IP := ip, mc_UUID := pad36 (mc_UUID m)\<rparr>"

fun add_clocks :: "gostring list \<Rightarrow> (gostring, u32) fmap \<Rightarrow> (gostring, u32) fmap \<Rightarrow> (gostring, u32) fmap" where
  "add_clocks [] vc acc = acc"
| "add_clocks (k # ks) vc acc = add_clocks ks vc (fmupd k (map_get 0 vc k) acc)"

lemma decode_put_clocks_more:
  "length buf = 36 \<Longrightarrow> list_all (\<lambda>k. length k = 36) ks \<Longrightarrow> r \<noteq> [] \<Longrightarrow>
   \<exists>buf'. length buf' = 36 \<and>
     decode_clocks (length ks + n) buf acc (concat (map (put_clock vc) ks) @ r) =
       decode_clocks n buf' (add_clocks ks vc acc) r"
  by (induction ks arbitrary: buf acc) (auto simp: put_clock_def codec_simps read_into_append)

lemma decode_put_clocks:
  "length buf = 36 \<Longrightarrow> list_all (\<lambda>k. length k = 36) ks \<Longrightarrow> r \<noteq> [] \<Longrightarrow>
   decode_clocks (length ks) buf acc (concat (map (put_clock vc) ks) @ r) =
     Inr (add_clocks ks vc acc, r)"
  using decode_put_clocks_more [of buf ks r 0 acc vc] by auto

lemma add_clocks_lookup:
  "fmlookup (add_clocks ks vc acc) k =
     (if k \<in> set ks then Some (map_get 0 vc k) else fmlookup acc k)"
  by (induction ks arbitrary: acc) auto

lemma add_clocks_all:
  assumes "range_order ks vc"
  shows "add_clocks ks vc fmempty = vc"
proof (rule fmap_ext)
  fix k
  have "k \<in> set ks \<longleftrightarrow> fmlookup vc k \<noteq> None"
    using assms by (metis fmdom_notD fmlookup_dom_iff fset_of_list_elem option.distinct(1) range_order_def)
  then show "fmlookup (add_clocks ks vc fmempty) k = fmlookup vc k"
    by (auto simp: add_clocks_lookup)
qed

lemma range_order_length: "range_order ks m \<Longrightarrow> length ks = map_len m"
  by (metis distinct_card fcard.rep_eq fset_of_list.rep_eq map_len_def range_order_def)

lemma range_order_pred: "range_order ks m \<Longrightarrow> fmpred (\<lambda>k v. P k) m \<Longrightarrow> list_all P ks"
  by (auto simp: range_order_def list_all_iff fmpred_iff)
    (metis fmlookup_dom_iff fset_of_list_elem)

lemma decode_encode_multicast:
  assumes "wf_mmessage m" "range_order ks (mc_VectorClock m)"
  shows "decodeMulticastMessage (encodeMulticastMessage ks m) ip = Inr (canonical_mmessage ip m)"
proof -
  let ?vc = "mc_VectorClock m"
  let ?tail = "put_u64 (of_nat (length (mc_Message m))) @ mc_Message m"
  have n: "unat (of_nat (map_len ?vc) :: u32) = length ks"
    using assms(1) range_order_length [OF assms(2)] by (simp add: wf_mmessage_def unat_of_nat)
  have ks: "list_all (\<lambda>k. length k = 36) ks"
    using assms range_order_pred [of ks ?vc "\<lambda>k. length k = 36"] by (simp add: wf_mmessage_def)
  have "decode_clocks (length ks) (pad36 (mc_UUID m)) fmempty
          (concat (map (put_clock ?vc) ks) @ ?tail) = Inr (?vc, ?tail)"
    using decode_put_clocks [of "pad36 (mc_UUID m)" ks ?tail fmempty ?vc] ks assms(1)
      add_clocks_all [OF assms(2)]
    by (simp add: wf_mmessage_def)
  then show ?thesis
    using assms(1) n
    by (simp add: decodeMulticastMessage_def encodeMulticastMessage_def codec_simps wf_mmessage_def
        canonical_mmessage_def)
qed

text \<open>The contract holds for every order in which the map is walked.\<close>

definition wf_ordered :: "gostring list \<times> MMessage \<Rightarrow> bool" where
  "wf_ordered km \<longleftrightarrow> wf_mmessage (snd km) \<and> range_order (fst km) (mc_VectorClock (snd km))"

interpretation multicast_codec:
  codec "\<lambda>(ks, m). encodeMulticastMessage ks m" "\<lambda>b. decodeMulticastMessage b ip"
    "\<lambda>(ks, m). Inr (canonical_mmessage ip m)" wf_ordered for ip
  by unfold_locales (auto simp: wf_ordered_def decode_encode_multicast)

section \<open>Large groups\<close>

lemma length_put_clocks: "length (concat (map (put_clock vc) ks)) = 40 * length ks"
  by (induction ks) (simp_all add: put_clock_def)

text \<open>The bytes of a clock list that end within its 25th entry do not decode.\<close>

lemma decode_clocks_cut:
  assumes "length buf = 36" "list_all (\<lambda>k. length k = 36) ks"
  shows "and_then (decode_clocks (length ks + Suc n) buf fmempty
           (concat (map (put_clock vc) ks) @ put_u32 c @ take 16 (pad36 k)))
           (\<lambda>(vc, r). and_then (get_u64 r) (f vc)) = Inl EOF"
proof -
  let ?cut = "put_u32 c @ take 16 (pad36 k)"
  obtain buf' where buf': "length buf' = 36"
    "decode_clocks (length ks + Suc n) buf fmempty (concat (map (put_clock vc) ks) @ ?cut) =
       decode_clocks (Suc n) buf' (add_clocks ks vc fmempty) ?cut"
    using decode_put_clocks_more [OF assms, of ?cut "Suc n" fmempty vc] by auto
  have "length (take 16 (pad36 k)) = 16" by simp
  then have "take 16 (pad36 k) \<noteq> []" by (metis list.size(3) zero_neq_numeral)
  then have "and_then (decode_clocks (Suc n) buf' (add_clocks ks vc fmempty) ?cut)
           (\<lambda>(vc, r). and_then (get_u64 r) (f vc)) = Inl EOF"
    using buf'(1) by (cases n) (simp_all add: codec_simps read_into_def)
  then show ?thesis by (simp only: buf'(2))
qed

text \<open>
  The datagram buffer of the multicast listener holds the clocks of 24 members. In a group of 25
  or more, no multicast datagram of any size decodes.
\<close>

lemma decode_large_group:
  assumes "range_order ks (mc_VectorClock m)" "fmpred (\<lambda>k c. length k = 36) (mc_VectorClock m)"
    and "25 \<le> map_len (mc_VectorClock m)" "map_len (mc_VectorClock m) < 2 ^ 32"
  shows "decodeMulticastMessage (recv_buf (encodeMulticastMessage ks m)) ip = Inl EOF"
proof -
  let ?vc = "mc_VectorClock m"
  let ?head = "put_u32 (mc_Frame m) @ pad36 (mc_UUID m) @ put_u32 (of_nat (map_len ?vc))"
  let ?rest = "put_u64 (of_nat (length (mc_Message m))) @ mc_Message m"
  have len: "length ks = map_len ?vc" by (rule range_order_length [OF assms(1)])
  define ks1 where "ks1 = take 24 ks"
  obtain k ks2 where ks: "ks = ks1 @ k # ks2"
    using assms(3) len id_take_nth_drop [of 24 ks] by (auto simp: ks1_def)
  have "list_all (\<lambda>k. length k = 36) (ks1 @ k # ks2)"
    using range_order_pred [OF assms(1,2)] ks by simp
  then have ks1: "length ks1 = 24" "list_all (\<lambda>k. length k = 36) ks1"
    using assms(3) len by (simp_all add: ks1_def)
  have "encodeMulticastMessage ks m =
      (?head @ concat (map (put_clock ?vc) ks1)) @ (put_u32 (map_get 0 ?vc k) @ pad36 k @
       concat (map (put_clock ?vc) ks2) @ ?rest)"
    by (simp add: encodeMulticastMessage_def ks put_clock_def)
  moreover have "length (?head @ concat (map (put_clock ?vc) ks1)) = 1004"
    by (simp add: length_put_clocks ks1)
  ultimately have cut: "recv_buf (encodeMulticastMessage ks m) =
      ?head @ concat (map (put_clock ?vc) ks1) @ put_u32 (map_get 0 ?vc k) @ take 16 (pad36 k)"
    by (simp add: recv_buf_def)
  have n: "unat (of_nat (map_len ?vc) :: u32) = length ks1 + Suc (length ks2)"
    using assms(4) len ks ks1 by (simp add: unat_of_nat)
  show ?thesis
    unfolding cut decodeMulticastMessage_def
    by (simp only: append_assoc and_then_simps get_u32_put read_into_pad36 length_zeros prod.case n
        decode_clocks_cut [OF length_pad36 ks1(2)])
qed

section \<open>Properties\<close>

text \<open>
  C27: in whatever order the sender's runtime walks the vector clock, the receiver decodes the
  same message: frame, sender, vector clock and payload, with the address of the datagram.
\<close>

theorem multicast_roundtrip:
  assumes "wf_mmessage m" "range_order ks (mc_VectorClock m)"
  shows "decodeMulticastMessage (encodeMulticastMessage ks m) ip = Inr (canonical_mmessage ip m)"
  using multicast_codec.roundtrip [of "(ks, m)" ip] assms by (simp add: wf_ordered_def)

theorem multicast_roundtrip_witness:
  "let vc = fmupd (replicate 36 1) 5 (fmupd (replicate 36 2) 9 fmempty);
       m = \<lparr>mc_Frame = 3, mc_IP = [], mc_UUID = replicate 36 1, mc_VectorClock = vc, mc_Message = [8]\<rparr>
   in decodeMulticastMessage (encodeMulticastMessage [replicate 36 2, replicate 36 1] m) [7] =
        Inr (m\<lparr>mc_IP := [7]\<rparr>)"
  unfolding Let_def
  by (subst multicast_roundtrip)
    (auto simp: wf_mmessage_def range_order_def map_len_def max_alloc_def canonical_mmessage_def
      fcard_finsert_if fcard_fempty fmpred_iff split: if_splits)

end
