(* ===== verification/Multicast.thy ===== *)
theory Multicast
  imports MulticastCodec Messages
begin

text \<open>
  Causally ordered reliable multicast, \<open>ReliableMulticast\<close> of \<^verbatim>\<open>server/multicast/multicast.go\<close>:
  its state and one definition per method. A result of \<open>None\<close> is a run-time panic or
  \<open>log.Fatal\<close>, which ends the process. The sends on \<open>msgChan\<close> are the delivered messages, in
  order; the sockets' effects are results as well.
\<close>

section \<open>State\<close>

record ReliableMulticast =
  rm_id :: gostring
  rm_port :: u32
  rm_frame :: u32
  rm_vectorClock :: "(gostring, u32) fmap"
  rm_holdBackQueue :: "MMessage list"
  rm_nodeIds :: "gostring list"
  rm_bufferAck :: "(u32, (gostring, bool) fmap) fmap"
  rm_quit :: bool

text \<open>
  The loop of \<open>NewReliableMulticast\<close> over \<open>peerIds\<close>: it writes into a slice of \<open>len(peerIds) - 1\<close>
  entries and panics when the index runs out of it.
\<close>

fun fill_nodes ::
  "gostring \<Rightarrow> gostring list \<Rightarrow> nat \<Rightarrow> gostring list \<Rightarrow> (gostring, u32) fmap \<Rightarrow>
   (gostring list \<times> (gostring, u32) fmap) option" where
  "fill_nodes self [] index nodeIds vc = Some (nodeIds, vc)"
| "fill_nodes self (nodeId # peerIds) index nodeIds vc =
     (if nodeId = self then fill_nodes self peerIds index nodeIds vc
      else if index < length nodeIds then
        fill_nodes self peerIds (index + 1) (nodeIds[index := nodeId]) (fmupd nodeId 0 vc)
      else None)"

text \<open>
  Opening the sockets is left out; \<open>make([]string, len(peerIds)-1)\<close> panics for no peers, and the
  logger's prefix slices the first four bytes of the identifier.
\<close>

definition NewReliableMulticast ::
  "gostring \<Rightarrow> u32 \<Rightarrow> gostring list \<Rightarrow> ReliableMulticast option" where
  "NewReliableMulticast self port peerIds =
     (if peerIds = [] \<or> length self < 4 then None
      else (case fill_nodes self peerIds 0 (replicate (length peerIds - 1) []) (fmupd self 0 fmempty) of
              None \<Rightarrow> None
            | Some (nodeIds, vc) \<Rightarrow>
                Some \<lparr>rm_id = self, rm_port = port, rm_frame = 0, rm_vectorClock = vc,
                      rm_holdBackQueue = [], rm_nodeIds = nodeIds, rm_bufferAck = fmempty,
                      rm_quit = False\<rparr>))"

section \<open>Acknowledgements and membership\<close>

definition OnAck :: "ReliableMulticast \<Rightarrow> gostring \<Rightarrow> u32 \<Rightarrow> ReliableMulticast" where
  "OnAck m uuid frame =
     (case fmlookup (rm_bufferAck m) frame of
        None \<Rightarrow> m
      | Some acks \<Rightarrow>
          if fmlookup acks uuid = None then m
          else m\<lparr>rm_bufferAck := fmupd frame (fmdrop uuid acks) (rm_bufferAck m)\<rparr>)"

definition HasPeer :: "ReliableMulticast \<Rightarrow> gostring \<Rightarrow> bool" where
  "HasPeer m uid \<longleftrightarrow> fmlookup (rm_vectorClock m) uid \<noteq> None"

text \<open>The first occurrence of the identifier leaves \<open>nodeIds\<close>; its acknowledgements are dropped.\<close>

definition RemoveDeadNode :: "ReliableMulticast \<Rightarrow> gostring \<Rightarrow> ReliableMulticast" where
  "RemoveDeadNode m uid =
     m\<lparr>rm_nodeIds := remove1 uid (rm_nodeIds m),
       rm_bufferAck := fmmap (fmdrop uid) (rm_bufferAck m)\<rparr>"

text \<open>\<open>VectorClock()\<close> copies the clock.\<close>

definition VectorClock :: "ReliableMulticast \<Rightarrow> (gostring, u32) fmap" where
  "VectorClock m = rm_vectorClock m"

section \<open>Delivery\<close>

text \<open>
  \<open>CanDeliver\<close> returns (canDeliver, isDuplicate). Its first line logs \<open>msg.UUID[:4]\<close>, which panics
  for a shorter identifier. The loop over the clock returns the same pair at each early exit,
  so the order in which Go walks the map does not matter.
\<close>

definition CanDeliver :: "ReliableMulticast \<Rightarrow> MMessage \<Rightarrow> (bool \<times> bool) option" where
  "CanDeliver m msg =
     (let j = mc_UUID msg in
      if length j < 4 then None
      else Some
        (case fmlookup (rm_vectorClock m) j of
           None \<Rightarrow> (False, False)
         | Some ij \<Rightarrow>
             (case fmlookup (mc_VectorClock msg) j of
                None \<Rightarrow> (False, False)
              | Some jj \<Rightarrow>
                  if jj \<le> ij then (False, True)
                  else if jj \<noteq> ij + 1 then (False, False)
                  else
                    (fmpred (\<lambda>k ik. k = j \<or>
                       (case fmlookup (mc_VectorClock msg) k of None \<Rightarrow> False | Some jk \<Rightarrow> \<not> ik < jk))
                       (rm_vectorClock m),
                     False))))"

text \<open>
  One pass of \<open>DeliverMessages\<close> over the queue: the first message that is a duplicate or can be
  delivered, with the queue without it. The outer \<open>None\<close> is a panic, the inner one says that no
  message was found.
\<close>

fun scan :: "ReliableMulticast \<Rightarrow> MMessage list \<Rightarrow> (bool \<times> MMessage \<times> MMessage list) option option" where
  "scan m [] = Some None"
| "scan m (msg # q) =
     (case CanDeliver m msg of
        None \<Rightarrow> None
      | Some (canDeliver, isDuplicate) \<Rightarrow>
          if isDuplicate then Some (Some (False, msg, q))
          else if canDeliver then Some (Some (True, msg, q))
          else (case scan m q of
                  None \<Rightarrow> None
                | Some None \<Rightarrow> Some None
                | Some (Some (b, x, q')) \<Rightarrow> Some (Some (b, x, msg # q'))))"

text \<open>What a pass does with the message it found.\<close>

definition take_message :: "ReliableMulticast \<Rightarrow> bool \<Rightarrow> MMessage \<Rightarrow> MMessage list \<Rightarrow> ReliableMulticast" where
  "take_message m deliver msg q =
     (let m = m\<lparr>rm_holdBackQueue := q\<rparr> in
      if deliver then
        m\<lparr>rm_vectorClock := fmupd (mc_UUID msg) (map_get 0 (rm_vectorClock m) (mc_UUID msg) + 1)
                              (rm_vectorClock m)\<rparr>
      else m)"

lemma scan_shorter: "scan m q = Some (Some (b, x, q')) \<Longrightarrow> length q = Suc (length q')"
  by (induction q arbitrary: q') (auto split: option.splits prod.splits if_splits)

lemma take_message_queue [simp]: "rm_holdBackQueue (take_message m b x q) = q"
  by (simp add: take_message_def Let_def)

text \<open>
  The whole loop: passes until one finds nothing. Every pass that finds a message shortens the
  queue, so it ends.
\<close>

function DeliverMessages :: "ReliableMulticast \<Rightarrow> (ReliableMulticast \<times> MMessage list) option" where
  "DeliverMessages m =
     (case scan m (rm_holdBackQueue m) of
        None \<Rightarrow> None
      | Some None \<Rightarrow> Some (m, [])
      | Some (Some (deliver, msg, q)) \<Rightarrow>
          (case DeliverMessages (take_message m deliver msg q) of
             None \<Rightarrow> None
           | Some (m', ms) \<Rightarrow> Some (m', if deliver then msg # ms else ms)))"
  by pat_completeness auto
termination
  by (relation "measure (\<lambda>m. length (rm_holdBackQueue m))") (auto dest: scan_shorter)

declare DeliverMessages.simps [simp del]

text \<open>The delivery goroutine appends the message and then delivers, in two critical sections.\<close>

definition enqueue :: "ReliableMulticast \<Rightarrow> MMessage \<Rightarrow> ReliableMulticast" where
  "enqueue m msg = m\<lparr>rm_holdBackQueue := rm_holdBackQueue m @ [msg]\<rparr>"

text \<open>
  \<open>AddNewNode\<close>: a new member starts at 0, and so does the own entry when the identifier is the own
  one; queued messages without an entry get 0; then messages are delivered.
\<close>

definition add_clock_entry :: "gostring \<Rightarrow> MMessage \<Rightarrow> MMessage" where
  "add_clock_entry uid msg =
     (if fmlookup (mc_VectorClock msg) uid = None
      then msg\<lparr>mc_VectorClock := fmupd uid 0 (mc_VectorClock msg)\<rparr> else msg)"

definition add_member :: "ReliableMulticast \<Rightarrow> gostring \<Rightarrow> ReliableMulticast" where
  "add_member m uid =
     m\<lparr>rm_vectorClock :=
         (if fmlookup (rm_vectorClock m) uid \<noteq> None \<and> uid \<noteq> rm_id m then rm_vectorClock m
          else fmupd uid 0 (rm_vectorClock m)),
       rm_holdBackQueue := map (add_clock_entry uid) (rm_holdBackQueue m)\<rparr>"

definition AddNewNode :: "ReliableMulticast \<Rightarrow> gostring \<Rightarrow> (ReliableMulticast \<times> MMessage list) option" where
  "AddNewNode m uid = DeliverMessages (add_member m uid)"

section \<open>Sending\<close>

text \<open>
  The critical section of \<open>SendMessage\<close>: the own clock entry counts the message, the message
  carries a copy of the clock, and the loop over \<open>nodeIds\<close> stores a one-entry map of pending
  acknowledgements per peer, each replacing the one before. \<open>ks\<close> is the order in which the encoder
  walks the clock. The result is the state, the bytes and the frame.
\<close>

definition SendMessage ::
  "ReliableMulticast \<Rightarrow> gostring list \<Rightarrow> bytes \<Rightarrow> (ReliableMulticast \<times> bytes \<times> u32) option" where
  "SendMessage m ks data =
     (case fmlookup (rm_vectorClock m) (rm_id m) of
        None \<Rightarrow> None
      | Some c \<Rightarrow>
          let vc = fmupd (rm_id m) (c + 1) (rm_vectorClock m);
              frame = rm_frame m;
              enc = encodeMulticastMessage ks \<lparr>mc_Frame = frame, mc_IP = [], mc_UUID = rm_id m,
                      mc_VectorClock = vc, mc_Message = data\<rparr>
          in Some (m\<lparr>rm_vectorClock := vc,
                     rm_bufferAck := fold (\<lambda>uid b. fmupd frame (fmupd uid False fmempty) b)
                                       (rm_nodeIds m) (rm_bufferAck m),
                     rm_frame := frame + 1\<rparr>, enc, frame))"

text \<open>
  A round of the retransmission goroutine: it stops when \<open>quit\<close> is closed; it writes the datagram;
  it decodes its own bytes to log the message type, and panics when they do not decode; after the
  sleep it stops if no acknowledgement is pending, forgetting the frame. Other goroutines change
  the multicaster during the sleep.
\<close>

definition pending :: "ReliableMulticast \<Rightarrow> u32 \<Rightarrow> nat" where
  "pending m frame = map_len (map_get fmempty (rm_bufferAck m) frame)"

definition loggable :: "bytes \<Rightarrow> bool" where
  "loggable enc \<longleftrightarrow>
     (case decodeMulticastMessage enc (lit ''foo'') of
        Inl MakePanic \<Rightarrow> False
      | Inl _ \<Rightarrow> (case Decode [] of Inl e \<Rightarrow> False | Inr d \<Rightarrow> True)
      | Inr msg \<Rightarrow> (case Decode (mc_Message msg) of Inl e \<Rightarrow> False | Inr d \<Rightarrow> True))"

datatype resend_result = Resend_Quit | Resend_Acked | Resend_Exhausted | Resend_Panic

datatype mc_event = EvAck gostring u32 | EvDead gostring | EvSend "gostring list" bytes | EvQuit

fun apply_mc :: "ReliableMulticast \<Rightarrow> mc_event \<Rightarrow> ReliableMulticast" where
  "apply_mc m (EvAck uuid frame) = OnAck m uuid frame"
| "apply_mc m (EvDead uid) = RemoveDeadNode m uid"
| "apply_mc m (EvSend ks data) =
     (case SendMessage m ks data of None \<Rightarrow> m | Some (m', enc, frame) \<Rightarrow> m')"
| "apply_mc m EvQuit = m\<lparr>rm_quit := True\<rparr>"

text \<open>\<open>for range 20\<close>: the rounds left, and the events of each sleep.\<close>

fun resend ::
  "ReliableMulticast \<Rightarrow> bytes \<Rightarrow> u32 \<Rightarrow> nat \<Rightarrow> (nat \<Rightarrow> mc_event list) \<Rightarrow>
   ReliableMulticast \<times> resend_result \<times> nat" where
  "resend m enc frame 0 others = (m, Resend_Exhausted, 0)"
| "resend m enc frame (Suc n) others =
     (if rm_quit m then (m, Resend_Quit, 0)
      else if \<not> loggable enc then (m, Resend_Panic, 1)
      else
        let m1 = foldl apply_mc m (others n) in
        if 0 < pending m1 frame then
          (case resend m1 enc frame n others of (m2, res, sent) \<Rightarrow> (m2, res, Suc sent))
        else (m1\<lparr>rm_bufferAck := fmdrop frame (rm_bufferAck m1)\<rparr>, Resend_Acked, 1))"

definition Shutdown :: "ReliableMulticast \<Rightarrow> ReliableMulticast option" where
  "Shutdown m = (if rm_quit m then None else Some (m\<lparr>rm_quit := True\<rparr>))"

section \<open>The listener\<close>

text \<open>
  One iteration of \<open>StartListener\<close> for a datagram. An acknowledgement goes out by unicast
  (\<open>Ack_To\<close>), membership messages take effect at once, and the delivery goroutine is started
  (\<open>Spawn_Deliver\<close>). On a decoding error the loop goes on with the empty message; a payload that
  does not decode makes \<open>decodedMsg.Type\<close> dereference a nil pointer.
\<close>

datatype mc_effect = Ack_To gostring gostring "bytes option" | Deliver_Now "MMessage list"
  | Spawn_Deliver MMessage

definition handle_message ::
  "ReliableMulticast \<Rightarrow> MMessage \<Rightarrow> (ReliableMulticast \<times> mc_effect list) option" where
  "handle_message m msg =
     (if mc_UUID msg = rm_id m then Some (m, [])
      else
        let ack = Ack_To (mc_IP msg) (mc_UUID msg) (NewMulticastAckMessage (mc_Frame msg)) in
        (case Decode (mc_Message msg) of
           Inl e \<Rightarrow> None
         | Inr d \<Rightarrow>
             (case (if m_Type d = NewNode then AddNewNode m (m_UUID d) else Some (m, [])) of
                None \<Rightarrow> None
              | Some (m1, ms) \<Rightarrow>
                  let m2 = (if m_Type d = DeadNode then RemoveDeadNode m1 (m_UUID d) else m1)
                  in Some (m2, [ack, Deliver_Now ms, Spawn_Deliver msg]))))"

definition handle_datagram ::
  "ReliableMulticast \<Rightarrow> gostring \<Rightarrow> bytes \<Rightarrow> (ReliableMulticast \<times> mc_effect list) option" where
  "handle_datagram m ip datagram =
     (case decodeMulticastMessage (recv_buf datagram) ip of
        Inl MakePanic \<Rightarrow> None
      | Inl _ \<Rightarrow> handle_message m zero_mmessage
      | Inr msg \<Rightarrow> handle_message m msg)"

end
