(* ===== verification/MulticastSending.thy ===== *)
theory MulticastSending
  imports Multicast
begin

text \<open>
  Sending and retransmission of multicast messages, \<open>SendMessage\<close> of
  \<^verbatim>\<open>server/multicast/multicast.go\<close>: which acknowledgements a message waits for, and when its
  goroutine stops.
\<close>

lemma bufferAck_last:
  "ns \<noteq> [] \<Longrightarrow>
   fold (\<lambda>uid b. fmupd frame (fmupd uid False fmempty) b) ns b0 =
     fmupd frame (fmupd (last ns) False fmempty) b0"
proof (induction ns arbitrary: b0)
  case (Cons n ns)
  then show ?case by (cases ns) (auto intro!: fmap_ext)
qed simp

lemma SendMessage_state:
  "SendMessage m ks data = Some (m', enc, frame) \<Longrightarrow> rm_nodeIds m \<noteq> [] \<Longrightarrow>
     frame = rm_frame m \<and> rm_frame m' = rm_frame m + 1 \<and> rm_quit m' = rm_quit m \<and>
     rm_vectorClock m' = fmupd (rm_id m) (map_get 0 (rm_vectorClock m) (rm_id m) + 1) (rm_vectorClock m) \<and>
     rm_bufferAck m' = fmupd frame (fmupd (last (rm_nodeIds m)) False fmempty) (rm_bufferAck m)"
  by (auto simp: SendMessage_def Let_def bufferAck_last split: option.splits)

lemma resend_cases:
  "case resend m enc frame n others of (m', res, sent) \<Rightarrow>
     sent \<le> n \<and>
     (case res of Resend_Exhausted \<Rightarrow> sent = n | Resend_Quit \<Rightarrow> rm_quit m'
      | Resend_Panic \<Rightarrow> 0 < sent \<and> \<not> loggable enc | Resend_Acked \<Rightarrow> 0 < sent \<and> fmlookup (rm_bufferAck m') frame = None)"
proof (induction n arbitrary: m)
  case (Suc n)
  show ?case
    using Suc [of "foldl apply_mc m (others n)"]
    by (auto simp: Let_def split: prod.splits resend_result.splits)
qed simp

lemma last_ack_round:
  assumes "SendMessage m ks data = Some (m', enc, frame)" "rm_nodeIds m \<noteq> []" "\<not> rm_quit m" "loggable enc"
  shows "\<exists>m''. resend m' enc frame (Suc n) (\<lambda>n. [EvAck (last (rm_nodeIds m)) frame]) = (m'', Resend_Acked, 1)"
proof -
  have acks: "rm_bufferAck (OnAck m' (last (rm_nodeIds m)) frame) = fmupd frame fmempty (rm_bufferAck m)"
    using SendMessage_state [OF assms(1,2)] by (auto simp: OnAck_def intro!: fmap_ext)
  then have "pending (OnAck m' (last (rm_nodeIds m)) frame) frame = 0" by (simp add: pending_def)
  moreover have "\<not> rm_quit m'" using SendMessage_state [OF assms(1,2)] assms(3) by simp
  ultimately show ?thesis using assms(4) acks by (simp add: Let_def)
qed

definition sending_node :: ReliableMulticast where
  "sending_node = \<lparr>rm_id = replicate 36 97, rm_port = 0, rm_frame = 7,
     rm_vectorClock = fmupd (replicate 36 97) 0 (fmupd (replicate 36 98) 0 (fmupd (replicate 36 99) 0 fmempty)),
     rm_holdBackQueue = [], rm_nodeIds = [replicate 36 98, replicate 36 99], rm_bufferAck = fmempty,
     rm_quit = False\<rparr>"

definition sending_order :: "gostring list" where
  "sending_order = [replicate 36 98, replicate 36 97, replicate 36 99]"

lemma sending_node_send:
  "\<exists>m' enc. SendMessage sending_node sending_order [4] = Some (m', enc, 7) \<and> loggable enc"
proof -
  let ?vc = "fmupd (replicate 36 97) 1 (rm_vectorClock sending_node)"
  let ?msg = "\<lparr>mc_Frame = 7, mc_IP = [], mc_UUID = replicate 36 97, mc_VectorClock = ?vc, mc_Message = [4]\<rparr>"
  have "Decode [4] = Inr (typed_message Heartbeat)"
    by (simp add: Decode_def codec_simps message_types Let_def)
  moreover have "decodeMulticastMessage (encodeMulticastMessage sending_order ?msg) (lit ''foo'') =
      Inr (canonical_mmessage (lit ''foo'') ?msg)"
    by (rule decode_encode_multicast)
      (auto simp: wf_mmessage_def range_order_def map_len_def max_alloc_def sending_node_def sending_order_def
        fcard_finsert_if fcard_fempty fmpred_iff split: if_splits)
  ultimately have "loggable (encodeMulticastMessage sending_order ?msg)"
    by (simp add: loggable_def canonical_mmessage_def)
  then show ?thesis by (simp add: SendMessage_def sending_node_def Let_def)
qed

section \<open>Properties\<close>

text \<open>SendMessage counts the message in the own clock entry and uses up one frame number, and of all
  the nodes it waits for the acknowledgement of the last one only: every turn of its loop replaces
  the frame's map by one with a single node.\<close>

lemma send_waits_for_last_node:
  assumes "SendMessage m ks data = Some (m', enc, frame)" "rm_nodeIds m \<noteq> []"
  shows "frame = rm_frame m \<and> rm_frame m' = rm_frame m + 1 \<and>
    rm_vectorClock m' = fmupd (rm_id m) (map_get 0 (rm_vectorClock m) (rm_id m) + 1) (rm_vectorClock m) \<and>
    rm_bufferAck m' = fmupd frame (fmupd (last (rm_nodeIds m)) False fmempty) (rm_bufferAck m)"
  using SendMessage_state [OF assms] by simp

lemma send_waits_for_last_node_witness:
  "\<exists>m' enc. SendMessage sending_node sending_order [4] = Some (m', enc, 7) \<and>
     fmlookup (rm_bufferAck m') 7 = Some (fmupd (replicate 36 99) False fmempty)"
proof -
  obtain m' enc where s: "SendMessage sending_node sending_order [4] = Some (m', enc, 7)"
    using sending_node_send by blast
  have "rm_nodeIds sending_node \<noteq> []" by (simp add: sending_node_def)
  from send_waits_for_last_node [OF s this] s show ?thesis by (simp add: sending_node_def)
qed

text \<open>C38: so the acknowledgement of that one node ends the retransmissions after the first datagram,
  although no other node has acknowledged: a datagram lost on the way to another node is not sent
  again.\<close>

theorem last_ack_ends_resending:
  assumes "SendMessage m ks data = Some (m', enc, frame)" "rm_nodeIds m \<noteq> []" "\<not> rm_quit m" "loggable enc"
  shows "\<exists>m''. resend m' enc frame 20 (\<lambda>n. [EvAck (last (rm_nodeIds m)) frame]) = (m'', Resend_Acked, 1)"
proof -
  have "(20 :: nat) = Suc 19" by simp
  then show ?thesis by (metis last_ack_round [OF assms])
qed

theorem last_ack_ends_resending_witness:
  "\<exists>m' enc m''. SendMessage sending_node sending_order [4] = Some (m', enc, 7) \<and>
     resend m' enc 7 20 (\<lambda>n. [EvAck (replicate 36 99) 7]) = (m'', Resend_Acked, 1)"
proof -
  obtain m' enc where s: "SendMessage sending_node sending_order [4] = Some (m', enc, 7)" "loggable enc"
    using sending_node_send by blast
  have "rm_nodeIds sending_node \<noteq> []" "\<not> rm_quit sending_node" "last (rm_nodeIds sending_node) = replicate 36 99"
    by (simp_all add: sending_node_def)
  then show ?thesis using last_ack_ends_resending [OF s(1) _ _ s(2)] s(1) by metis
qed

text \<open>The retransmission goroutine always ends: it sends at most one datagram per round; it ends
  because the multicaster was shut down, or because nothing was pending, and then it has forgotten
  the frame, or after all its rounds, or with a panic because the bytes do not decode.\<close>

lemma resend_ends:
  "case resend m enc frame n others of (m', res, sent) \<Rightarrow>
     sent \<le> n \<and>
     (case res of Resend_Exhausted \<Rightarrow> sent = n | Resend_Quit \<Rightarrow> rm_quit m'
      | Resend_Panic \<Rightarrow> 0 < sent \<and> \<not> loggable enc
      | Resend_Acked \<Rightarrow> 0 < sent \<and> fmlookup (rm_bufferAck m') frame = None)"
  by (rule resend_cases)

end
