(* ===== verification/CausalDelivery.thy ===== *)
theory CausalDelivery
  imports Multicast "HOL-Library.Multiset"
begin

text \<open>
  What the hold-back queue of \<^verbatim>\<open>server/multicast/multicast.go\<close> guarantees: \<open>CanDeliver\<close> is the
  causal delivery condition, \<open>DeliverMessages\<close> delivers everything that can be delivered and
  loses nothing else, and the application of a node sees every sender's messages once, without
  gaps and in causal order, whatever arrives and however the goroutines interleave.
\<close>

section \<open>The contract of causal delivery\<close>

text \<open>
  A deliverer with a clock and a set of known processes, and messages with a sender and a
  stamp. A step may emit one message; then the stamp is the next one of its sender and asks
  for nothing of a known process that is not delivered, and the clock counts it. A step never
  touches the clock of another process otherwise, and never forgets a process.
\<close>

locale causal_deliverer =
  fixes clock :: "'s \<Rightarrow> 'p \<Rightarrow> nat" and self :: "'s \<Rightarrow> 'p" and known :: "'s \<Rightarrow> 'p \<Rightarrow> bool"
    and stamp :: "'m \<Rightarrow> 'p \<Rightarrow> nat" and sender :: "'m \<Rightarrow> 'p"
    and emit :: "'s \<Rightarrow> 'm option \<Rightarrow> 's \<Rightarrow> bool"
  assumes emit_self: "emit s e t \<Longrightarrow> self t = self s"
    and emit_grows: "emit s e t \<Longrightarrow> known s p \<Longrightarrow> known t p"
    and emit_next: "emit s (Some x) t \<Longrightarrow> stamp x (sender x) = Suc (clock s (sender x))"
    and emit_known: "emit s (Some x) t \<Longrightarrow> p \<noteq> sender x \<Longrightarrow> known s p \<Longrightarrow> stamp x p \<le> clock s p"
    and emit_clock: "emit s (Some x) t \<Longrightarrow> clock t = (clock s)(sender x := Suc (clock s (sender x)))"
    and emit_foreign: "emit s (Some x) t \<Longrightarrow> sender x \<noteq> self s"
    and quiet_clock: "emit s None t \<Longrightarrow> p \<noteq> self s \<Longrightarrow> clock t p = clock s p"
begin

inductive emits :: "'s \<Rightarrow> 'm list \<Rightarrow> 's \<Rightarrow> bool" for s :: 's where
  emits_Nil: "emits s [] s"
| emits_quiet: "emits s xs t \<Longrightarrow> emit t None u \<Longrightarrow> emits s xs u"
| emits_snoc: "emits s xs t \<Longrightarrow> emit t (Some x) u \<Longrightarrow> emits s (xs @ [x]) u"

lemma emits_self: "emits s xs t \<Longrightarrow> self t = self s"
  by (induction rule: emits.induct) (auto dest: emit_self)

lemma emits_grows: "emits s xs t \<Longrightarrow> known s p \<Longrightarrow> known t p"
  by (induction rule: emits.induct) (auto dest: emit_grows)

text \<open>Everything emitted is below the clock, and no earlier message knows a later one.\<close>

lemma emits_below:
  assumes "emits s xs t" "clock s = (\<lambda>p. 0)" "p \<noteq> self s" "known s p"
  shows "\<forall>x \<in> set xs. stamp x p \<le> clock t p"
  using assms(1)
proof (induction rule: emits.induct)
  case (emits_quiet xs t u)
  then have "clock u p = clock t p"
    using quiet_clock emits_self assms(3) by metis
  then show ?case using emits_quiet by simp
next
  case (emits_snoc xs t y u)
  have "stamp y p \<le> clock u p"
    using emit_next [OF emits_snoc.hyps(2)] emit_clock [OF emits_snoc.hyps(2)]
      emit_known [OF emits_snoc.hyps(2) _ emits_grows [OF emits_snoc.hyps(1) assms(4)]]
    by (cases "p = sender y") auto
  moreover have "clock t p \<le> clock u p"
    using emit_clock [OF emits_snoc.hyps(2)] by simp
  ultimately show ?case
    using emits_snoc.IH by (auto intro: le_trans)
qed simp

lemma emits_causal:
  assumes "emits s xs t" "clock s = (\<lambda>p. 0)"
  shows "sorted_wrt (\<lambda>y x. known s (sender x) \<longrightarrow> stamp y (sender x) < stamp x (sender x)) xs"
  using assms(1)
proof (induction rule: emits.induct)
  case (emits_snoc xs t x u)
  have "sender x \<noteq> self s"
    using emit_foreign [OF emits_snoc.hyps(2)] emits_self [OF emits_snoc.hyps(1)] by simp
  then have "known s (sender x) \<longrightarrow> (\<forall>y \<in> set xs. stamp y (sender x) < stamp x (sender x))"
    using emits_below [OF emits_snoc.hyps(1) assms(2)] emit_next [OF emits_snoc.hyps(2)]
    by (auto simp: less_Suc_eq_le)
  then show ?case using emits_snoc.IH by (auto simp: sorted_wrt_append)
qed simp_all

lemma emits_consecutive:
  assumes "emits s xs t" "clock s = (\<lambda>p. 0)" "p \<noteq> self s"
  shows "map (\<lambda>x. stamp x p) (filter (\<lambda>x. sender x = p) xs) = [1..<Suc (clock t p)]"
  using assms(1)
proof (induction rule: emits.induct)
  case emits_Nil
  then show ?case using assms(2) by simp
next
  case (emits_quiet xs t u)
  then have "clock u p = clock t p"
    using quiet_clock emits_self assms(3) by metis
  then show ?case using emits_quiet by simp
next
  case (emits_snoc xs t x u)
  then show ?case
    using emit_next [OF emits_snoc.hyps(2)] emit_clock [OF emits_snoc.hyps(2)] by auto
qed

lemma emits_trans: "emits t ys u \<Longrightarrow> emits s xs t \<Longrightarrow> emits s (xs @ ys) u"
  by (induction rule: emits.induct)
    (auto intro: emits_quiet emits_snoc simp flip: append_assoc)

lemma emits_quietly: "emit s None t \<Longrightarrow> emits s [] t"
  by (blast intro: emits.intros)

lemma emits_one: "emit s (Some x) t \<Longrightarrow> emits s [x] t"
  using emits_snoc [OF emits_Nil] by simp

end

section \<open>The delivery condition\<close>

definition stamp_of :: "MMessage \<Rightarrow> gostring \<Rightarrow> nat" where
  "stamp_of x p = unat (map_get 0 (mc_VectorClock x) p)"

definition clock_of :: "ReliableMulticast \<Rightarrow> gostring \<Rightarrow> nat" where
  "clock_of m p = unat (map_get 0 (rm_vectorClock m) p)"

lemma next_clock: "\<not> j \<le> i \<Longrightarrow> j = i + 1 \<Longrightarrow> unat j = Suc (unat (i :: u32))"
  by unat_arith

text \<open>
  \<open>CanDeliver\<close> is the condition of Birman, Schiper and Stephenson, on numbers: the message is its
  sender's next one, and asks for nothing that is not delivered here.
\<close>

definition deliverable :: "ReliableMulticast \<Rightarrow> MMessage \<Rightarrow> bool" where
  "deliverable m msg \<longleftrightarrow>
     fmlookup (rm_vectorClock m) (mc_UUID msg) \<noteq> None \<and>
     stamp_of msg (mc_UUID msg) = Suc (clock_of m (mc_UUID msg)) \<and>
     (\<forall>k. k \<noteq> mc_UUID msg \<longrightarrow> fmlookup (rm_vectorClock m) k \<noteq> None \<longrightarrow>
        fmlookup (mc_VectorClock msg) k \<noteq> None \<and> stamp_of msg k \<le> clock_of m k)"

definition duplicate :: "ReliableMulticast \<Rightarrow> MMessage \<Rightarrow> bool" where
  "duplicate m msg \<longleftrightarrow>
     fmlookup (rm_vectorClock m) (mc_UUID msg) \<noteq> None \<and>
     fmlookup (mc_VectorClock msg) (mc_UUID msg) \<noteq> None \<and>
     stamp_of msg (mc_UUID msg) \<le> clock_of m (mc_UUID msg)"

lemma stamp_le: "fmlookup (mc_VectorClock msg) k = Some j \<Longrightarrow> fmlookup (rm_vectorClock m) k = Some i \<Longrightarrow>
   (stamp_of msg k \<le> clock_of m k) = (j \<le> i)"
  by (simp add: stamp_of_def clock_of_def word_le_nat_alt)

lemma stamp_next: "fmlookup (mc_VectorClock msg) k = Some j \<Longrightarrow> fmlookup (rm_vectorClock m) k = Some i \<Longrightarrow>
   (stamp_of msg k = Suc (clock_of m k)) = (\<not> j \<le> i \<and> j = i + 1)"
  unfolding stamp_of_def clock_of_def map_get_Some by (auto simp: next_clock) unat_arith+

lemma CanDeliver_panics_iff [simp]: "CanDeliver m msg = None \<longleftrightarrow> length (mc_UUID msg) < 4"
  by (simp add: CanDeliver_def Let_def)

lemma CanDeliver_eq:
  "4 \<le> length (mc_UUID msg) \<Longrightarrow> CanDeliver m msg = Some (deliverable m msg, duplicate m msg)"
proof (cases "fmlookup (rm_vectorClock m) (mc_UUID msg)")
  case None
  assume "4 \<le> length (mc_UUID msg)"
  then show ?thesis using None by (simp add: CanDeliver_def deliverable_def duplicate_def)
next
  case (Some i)
  note own = Some
  assume id: "4 \<le> length (mc_UUID msg)"
  show ?thesis
  proof (cases "fmlookup (mc_VectorClock msg) (mc_UUID msg)")
    case None
    then show ?thesis using id own by (simp add: CanDeliver_def deliverable_def duplicate_def stamp_of_def)
  next
    case (Some j)
    have others: "fmpred (\<lambda>k ik. k = mc_UUID msg \<or>
        (case fmlookup (mc_VectorClock msg) k of None \<Rightarrow> False | Some jk \<Rightarrow> \<not> ik < jk))
        (rm_vectorClock m) \<longleftrightarrow>
      (\<forall>k. k \<noteq> mc_UUID msg \<longrightarrow> fmlookup (rm_vectorClock m) k \<noteq> None \<longrightarrow>
        fmlookup (mc_VectorClock msg) k \<noteq> None \<and> stamp_of msg k \<le> clock_of m k)" (is "?l = ?r")
    proof -
      have "(fmlookup (rm_vectorClock m) k = Some ik \<longrightarrow> (k = mc_UUID msg \<or>
          (case fmlookup (mc_VectorClock msg) k of None \<Rightarrow> False | Some jk \<Rightarrow> \<not> ik < jk))) \<longleftrightarrow>
        (fmlookup (rm_vectorClock m) k = Some ik \<longrightarrow> k \<noteq> mc_UUID msg \<longrightarrow>
          fmlookup (mc_VectorClock msg) k \<noteq> None \<and> stamp_of msg k \<le> clock_of m k)" for k ik
        by (cases "fmlookup (mc_VectorClock msg) k") (auto simp: stamp_le not_less)
      then show ?thesis unfolding fmpred_iff by blast
    qed
    show ?thesis
      unfolding CanDeliver_def Let_def others deliverable_def duplicate_def
      using id own Some stamp_le [OF Some own] stamp_next [OF Some own] by auto
  qed
qed

section \<open>One pass and the whole loop\<close>

definition well_named :: "MMessage list \<Rightarrow> bool" where
  "well_named q \<longleftrightarrow> (\<forall>x \<in> set q. 4 \<le> length (mc_UUID x))"

lemma well_named_simps [simp]:
  "well_named []"
  "well_named (x # q) \<longleftrightarrow> 4 \<le> length (mc_UUID x) \<and> well_named q"
  "well_named (q @ r) \<longleftrightarrow> well_named q \<and> well_named r"
  by (auto simp: well_named_def)

lemma scan_found:
  "scan m q = Some (Some (b, x, q')) \<Longrightarrow>
     (\<exists>as bs. q = as @ x # bs \<and> q' = as @ bs) \<and> (if b then deliverable m x else duplicate m x)"
proof (induction q arbitrary: q')
  case (Cons y q)
  show ?case
  proof (cases "CanDeliver m y")
    case (Some c)
    then have "4 \<le> length (mc_UUID y)" by (metis CanDeliver_panics_iff leI option.distinct(1))
    then have c: "c = (deliverable m y, duplicate m y)" using Some CanDeliver_eq by simp
    show ?thesis
    proof (cases "duplicate m y \<or> deliverable m y")
      case True
      then show ?thesis using Cons.prems Some c by (auto split: if_splits)
    next
      case False
      then obtain r where "scan m q = Some (Some (b, x, r))" "q' = y # r"
        using Cons.prems Some c by (auto split: option.splits)
      then show ?thesis using Cons.IH by (metis append_Cons)
    qed
  qed (use Cons.prems in \<open>simp del: CanDeliver_panics_iff\<close>)
qed simp

lemma scan_nothing:
  "scan m q = Some None \<Longrightarrow> x \<in> set q \<Longrightarrow> \<not> deliverable m x \<and> \<not> duplicate m x"
proof (induction q)
  case (Cons y q)
  show ?case
  proof (cases "CanDeliver m y")
    case (Some c)
    then have "4 \<le> length (mc_UUID y)" by (metis CanDeliver_panics_iff leI option.distinct(1))
    then have "c = (deliverable m y, duplicate m y)" using Some CanDeliver_eq by simp
    then show ?thesis using Cons Some by (auto split: if_splits option.splits)
  qed (use Cons.prems in \<open>simp del: CanDeliver_panics_iff\<close>)
qed simp

lemma scan_total: "well_named q \<Longrightarrow> scan m q \<noteq> None"
  by (induction q) (auto simp: CanDeliver_eq split: option.splits)

text \<open>
  Induction over the passes of a run of \<open>DeliverMessages\<close> that ends: nothing found, a message
  delivered, a duplicate dropped.
\<close>

lemma DeliverMessages_induct [consumes 1, case_names nothing found]:
  assumes "DeliverMessages m = Some (m', ms)"
    and "\<And>m. scan m (rm_holdBackQueue m) = Some None \<Longrightarrow> P m m []"
    and "\<And>m b x as bs m' ms. rm_holdBackQueue m = as @ x # bs \<Longrightarrow>
          (if b then deliverable m x else duplicate m x) \<Longrightarrow>
          P (take_message m b x (as @ bs)) m' ms \<Longrightarrow> P m m' (if b then x # ms else ms)"
  shows "P m m' ms"
  using assms(1)
proof (induction m arbitrary: m' ms rule: DeliverMessages.induct)
  case (1 m)
  show ?case
  proof (cases "scan m (rm_holdBackQueue m)")
    case None
    then show ?thesis using "1.prems" by (simp add: DeliverMessages.simps [of m])
  next
    case (Some r)
    note sc = Some
    show ?thesis
    proof (cases r)
      case None
      then show ?thesis using "1.prems" sc assms(2) by (simp add: DeliverMessages.simps [of m])
    next
      case (Some bxq)
      obtain b x q where r: "r = Some (b, x, q)" using Some by (cases bxq) simp
      with sc have sc': "scan m (rm_holdBackQueue m) = Some (Some (b, x, q))" by simp
      obtain ms' where ms': "DeliverMessages (take_message m b x q) = Some (m', ms')"
        "ms = (if b then x # ms' else ms')"
        using "1.prems" sc' by (simp add: DeliverMessages.simps [of m] split: option.splits prod.splits)
      have "P (take_message m b x q) m' ms'"
        using "1.IH" [OF sc' refl refl refl ms'(1)] by simp
      then show ?thesis using scan_found [OF sc'] assms(3) ms'(2) by blast
    qed
  qed
qed

lemma take_message_simps [simp]:
  "rm_id (take_message m b x q) = rm_id m"
  "rm_vectorClock (take_message m False x q) = rm_vectorClock m"
  "rm_vectorClock (take_message m True x q) =
     fmupd (mc_UUID x) (map_get 0 (rm_vectorClock m) (mc_UUID x) + 1) (rm_vectorClock m)"
  by (simp_all add: take_message_def Let_def)

lemma take_message_total:
  assumes "well_named q" shows "DeliverMessages m \<noteq> None \<or> rm_holdBackQueue m \<noteq> q"
  using assms
proof (induction m arbitrary: q rule: DeliverMessages.induct)
  case (1 m)
  show ?case
  proof (cases "rm_holdBackQueue m = q")
    case True
    then obtain r where r: "scan m (rm_holdBackQueue m) = Some r" using scan_total "1.prems" by blast
    show ?thesis
    proof (cases r)
      case None
      then show ?thesis using r by (simp add: DeliverMessages.simps [of m])
    next
      case (Some bxq)
      obtain b x q' where s: "scan m (rm_holdBackQueue m) = Some (Some (b, x, q'))"
        using Some r by (cases bxq) simp
      have "well_named q'" using scan_found [OF s] "1.prems" True by auto
      then have "DeliverMessages (take_message m b x q') \<noteq> None"
        using "1.IH" [OF s refl refl refl] by fastforce
      then show ?thesis using s by (auto simp: DeliverMessages.simps [of m])
    qed
  qed simp
qed

lemma deliver_total: "well_named (rm_holdBackQueue m) \<Longrightarrow> DeliverMessages m \<noteq> None"
  using take_message_total by blast

lemma clock_of_take [simp]:
  "clock_of (take_message m False x q) = clock_of m"
  "deliverable m x \<Longrightarrow>
     clock_of (take_message m True x q) = (clock_of m)(mc_UUID x := Suc (clock_of m (mc_UUID x)))"
proof -
  show "clock_of (take_message m False x q) = clock_of m"
    by (simp add: clock_of_def fun_eq_iff)
  assume "deliverable m x"
  then have "Suc (clock_of m (mc_UUID x)) = stamp_of x (mc_UUID x)" by (simp add: deliverable_def)
  also have "stamp_of x (mc_UUID x) < 2 ^ 32"
    unfolding stamp_of_def using unat_less_2p [where 'a = 32] by simp
  finally have "unat (map_get 0 (rm_vectorClock m) (mc_UUID x) + 1) = Suc (clock_of m (mc_UUID x))"
    unfolding clock_of_def using unat_add_lem [of "map_get 0 (rm_vectorClock m) (mc_UUID x)" 1] by simp
  then show "clock_of (take_message m True x q) = (clock_of m)(mc_UUID x := Suc (clock_of m (mc_UUID x)))"
    by (auto simp: clock_of_def fun_eq_iff)
qed

lemma lookup_take [simp]:
  "deliverable m x \<or> \<not> b \<Longrightarrow>
   (fmlookup (rm_vectorClock (take_message m b x q)) k = None) = (fmlookup (rm_vectorClock m) k = None)"
  by (cases b) (auto simp: deliverable_def)

lemma duplicate_take:
  "duplicate m y \<Longrightarrow> (if b then deliverable m x else duplicate m x) \<Longrightarrow> duplicate (take_message m b x q) y"
  by (cases b) (auto simp: duplicate_def)

lemma DeliverMessages_quiescent:
  "DeliverMessages m = Some (m', ms) \<Longrightarrow>
     \<forall>x \<in> set (rm_holdBackQueue m'). \<not> deliverable m' x \<and> \<not> duplicate m' x"
  by (induction rule: DeliverMessages_induct) (auto dest: scan_nothing)

lemma DeliverMessages_conserves:
  "DeliverMessages m = Some (m', ms) \<Longrightarrow>
     (\<forall>y. duplicate m y \<longrightarrow> duplicate m' y) \<and>
     (\<exists>dups. mset (rm_holdBackQueue m) = mset ms + mset dups + mset (rm_holdBackQueue m') \<and>
       (\<forall>x \<in> set dups. duplicate m' x))"
proof (induction rule: DeliverMessages_induct)
  case (nothing m)
  then show ?case by (auto intro!: exI [of _ "[]"])
next
  case (found m b x as bs m' ms)
  then obtain dups where d: "mset (as @ bs) = mset ms + mset dups + mset (rm_holdBackQueue m')"
      "\<forall>x \<in> set dups. duplicate m' x" by auto
  have dup: "\<forall>y. duplicate m y \<longrightarrow> duplicate m' y"
    using found(2,3) duplicate_take by blast
  show ?case
  proof (cases b)
    case True
    then show ?thesis using dup found(1) d by (auto intro!: exI [of _ dups])
  next
    case False
    then show ?thesis using dup found(1,2) d by (auto intro!: exI [of _ "x # dups"])
  qed
qed

section \<open>Sample messages\<close>

definition stamped :: "string \<Rightarrow> (string \<times> u32) list \<Rightarrow> MMessage" where
  "stamped sender clock = \<lparr>mc_Frame = 0, mc_IP = [], mc_UUID = lit sender,
     mc_VectorClock = fmap_of_list (map (\<lambda>(k, c). (lit k, c)) clock), mc_Message = [1]\<rparr>"

definition sample_node :: "MMessage list \<Rightarrow> ReliableMulticast" where
  "sample_node q = \<lparr>rm_id = lit ''aaaa'', rm_port = 0, rm_frame = 0,
     rm_vectorClock = fmap_of_list [(lit ''aaaa'', 0), (lit ''bbbb'', 0), (lit ''cccc'', 0)],
     rm_holdBackQueue = q, rm_nodeIds = [lit ''bbbb'', lit ''cccc''], rm_bufferAck = fmempty,
     rm_quit = False\<rparr>"

definition sample_b :: MMessage where
  "sample_b = stamped ''bbbb'' [(''aaaa'', 0), (''bbbb'', 1), (''cccc'', 0)]"

definition sample_c :: MMessage where
  "sample_c = stamped ''cccc'' [(''aaaa'', 0), (''bbbb'', 1), (''cccc'', 1)]"

lemma sample_deliver:
  "map_option snd (DeliverMessages (sample_node [sample_c, sample_b, sample_b])) = Some [sample_b, sample_c]"
  by code_simp

section \<open>What a run of the loop guarantees\<close>

text \<open>C13: a run of DeliverMessages leaves the hold-back queue with no message that could still be
  delivered and no duplicate; every message that was queued is delivered, or is still queued, or
  was dropped as a duplicate: its stamp is one that this node has already delivered from that
  sender.\<close>

theorem deliver_messages_complete:
  assumes "DeliverMessages m = Some (m', ms)"
  shows "(\<forall>x \<in> set (rm_holdBackQueue m'). \<not> deliverable m' x \<and> \<not> duplicate m' x) \<and>
    (\<exists>dups. mset (rm_holdBackQueue m) = mset ms + mset dups + mset (rm_holdBackQueue m') \<and>
       (\<forall>x \<in> set dups. duplicate m' x))"
  using DeliverMessages_quiescent [OF assms] DeliverMessages_conserves [OF assms] by blast

theorem deliver_messages_complete_witness:
  "\<exists>m'. DeliverMessages (sample_node [sample_c, sample_b, sample_b]) = Some (m', [sample_b, sample_c]) \<and>
     list_all (\<lambda>x. \<not> deliverable m' x \<and> \<not> duplicate m' x) (rm_holdBackQueue m')"
proof -
  obtain m' where m': "DeliverMessages (sample_node [sample_c, sample_b, sample_b]) = Some (m', [sample_b, sample_c])"
    using sample_deliver by auto
  from deliver_messages_complete [OF this] m' show ?thesis by (auto simp: list_all_iff)
qed

section \<open>Critical sections\<close>

text \<open>
  The goroutines of a node work on the multicaster in critical sections: the delivery goroutine
  of a foreign message appends it, somebody runs \<open>DeliverMessages\<close>, a member is added, a local
  operation runs, a retransmission forgets its frame. \<open>mc_run m log m'\<close> is any interleaving of
  them; \<open>log\<close> is what went out on \<open>msgChan\<close>.
\<close>

inductive mc_section :: "ReliableMulticast \<Rightarrow> MMessage list \<Rightarrow> ReliableMulticast \<Rightarrow> bool" where
  sec_enqueue: "mc_UUID msg \<noteq> rm_id m \<Longrightarrow> mc_section m [] (enqueue m msg)"
| sec_deliver: "DeliverMessages m = Some (m', ms) \<Longrightarrow> mc_section m ms m'"
| sec_member: "mc_section m [] (add_member m uid)"
| sec_local: "mc_section m [] (apply_mc m e)"
| sec_forget: "mc_section m [] (m\<lparr>rm_bufferAck := fmdrop frame (rm_bufferAck m)\<rparr>)"

inductive mc_run :: "ReliableMulticast \<Rightarrow> MMessage list \<Rightarrow> ReliableMulticast \<Rightarrow> bool" for m where
  run_start: "mc_run m [] m"
| run_section: "mc_run m xs m' \<Longrightarrow> mc_section m' ys m'' \<Longrightarrow> mc_run m (xs @ ys) m''"

lemma mc_run_trans: "mc_run m' ys m'' \<Longrightarrow> mc_run m xs m' \<Longrightarrow> mc_run m (xs @ ys) m''"
  by (induction rule: mc_run.induct) (auto intro: mc_run.run_section simp flip: append_assoc)

lemma mc_run_one: "mc_section m ys m' \<Longrightarrow> mc_run m ys m'"
  using run_section [OF run_start] by simp

text \<open>The abstract step: a message is emitted, or other clocks stay as they are.\<close>

definition mc_known :: "ReliableMulticast \<Rightarrow> gostring \<Rightarrow> bool" where
  "mc_known m p \<longleftrightarrow> fmlookup (rm_vectorClock m) p \<noteq> None"

definition mc_emit :: "ReliableMulticast \<Rightarrow> MMessage option \<Rightarrow> ReliableMulticast \<Rightarrow> bool" where
  "mc_emit m e m' \<longleftrightarrow> rm_id m' = rm_id m \<and> (\<forall>p. mc_known m p \<longrightarrow> mc_known m' p) \<and>
     (case e of
        Some x \<Rightarrow> mc_UUID x \<noteq> rm_id m \<and> deliverable m x \<and>
          clock_of m' = (clock_of m)(mc_UUID x := Suc (clock_of m (mc_UUID x)))
      | None \<Rightarrow> (\<forall>p. p \<noteq> rm_id m \<longrightarrow> clock_of m' p = clock_of m p))"

interpretation causal: causal_deliverer clock_of rm_id mc_known stamp_of mc_UUID mc_emit
  by unfold_locales (auto simp: mc_emit_def deliverable_def mc_known_def split: option.splits)

definition foreign :: "ReliableMulticast \<Rightarrow> bool" where
  "foreign m \<longleftrightarrow> (\<forall>x \<in> set (rm_holdBackQueue m). mc_UUID x \<noteq> rm_id m)"

lemma quiet_emits:
  assumes "rm_id m' = rm_id m" "\<And>p. mc_known m p \<Longrightarrow> mc_known m' p"
    "\<And>p. p \<noteq> rm_id m \<Longrightarrow> clock_of m' p = clock_of m p"
  shows "causal.emits m [] m'"
  using assms by (intro causal.emits_quietly) (simp add: mc_emit_def)

lemma loud_emits:
  assumes "rm_id m' = rm_id m" "\<And>p. mc_known m p \<Longrightarrow> mc_known m' p" "mc_UUID x \<noteq> rm_id m"
    "deliverable m x" "clock_of m' = (clock_of m)(mc_UUID x := Suc (clock_of m (mc_UUID x)))"
  shows "causal.emits m [x] m'"
  using assms by (intro causal.emits_one) (simp add: mc_emit_def)

lemma known_take:
  "(if b then deliverable m x else duplicate m x) \<Longrightarrow> mc_known (take_message m b x q) p = mc_known m p"
  using lookup_take [of m x b q p] unfolding mc_known_def by metis

lemma take_emits:
  assumes "if b then deliverable m x else duplicate m x" "mc_UUID x \<noteq> rm_id m"
  shows "causal.emits m (if b then [x] else []) (take_message m b x q)"
proof (cases b)
  case True
  have "causal.emits m [x] (take_message m b x q)"
    by (rule loud_emits) (use assms True in \<open>simp_all add: known_take\<close>)
  then show ?thesis using True by simp
next
  case False
  have "causal.emits m [] (take_message m b x q)"
    by (rule quiet_emits) (use assms False in \<open>simp_all add: known_take\<close>)
  then show ?thesis using False by simp
qed

lemma DeliverMessages_emits:
  "DeliverMessages m = Some (m', ms) \<Longrightarrow> foreign m \<longrightarrow> foreign m' \<and> causal.emits m ms m'"
proof (induction rule: DeliverMessages_induct)
  case (nothing m)
  then show ?case by (simp add: causal.emits_Nil)
next
  case (found m b x as bs m' ms)
  let ?t = "take_message m b x (as @ bs)"
  show ?case
  proof
    assume f: "foreign m"
    have x: "mc_UUID x \<noteq> rm_id m" using f found(1) by (simp add: foreign_def)
    have "foreign ?t" using f found(1) by (simp add: foreign_def)
    then have m': "foreign m' \<and> causal.emits ?t ms m'" using found(3) by blast
    then have "causal.emits m ((if b then [x] else []) @ ms) m'"
      using causal.emits_trans take_emits [OF found(2) x] by blast
    then show "foreign m' \<and> causal.emits m (if b then x # ms else ms) m'"
      using m' by (simp split: if_splits)
  qed
qed

lemma local_keeps:
  "rm_id (apply_mc m e) = rm_id m"
  "rm_holdBackQueue (apply_mc m e) = rm_holdBackQueue m"
  "p \<noteq> rm_id m \<Longrightarrow> clock_of (apply_mc m e) p = clock_of m p"
  "mc_known m p \<Longrightarrow> mc_known (apply_mc m e) p"
  by (cases e; auto simp: clock_of_def mc_known_def OnAck_def RemoveDeadNode_def SendMessage_def Let_def
      split: option.splits)+

lemma member_keeps:
  "rm_id (add_member m uid) = rm_id m"
  "p \<noteq> rm_id m \<Longrightarrow> clock_of (add_member m uid) p = clock_of m p"
  "mc_known m p \<Longrightarrow> mc_known (add_member m uid) p"
  "foreign m \<Longrightarrow> foreign (add_member m uid)"
  by (auto simp: add_member_def clock_of_def mc_known_def foreign_def add_clock_entry_def map_get_def
      split: option.splits)

lemma section_emits: "mc_section m ms m' \<Longrightarrow> foreign m \<Longrightarrow> foreign m' \<and> causal.emits m ms m'"
proof (induction rule: mc_section.induct)
  case (sec_deliver m m' ms)
  then show ?case using DeliverMessages_emits by blast
next
  case (sec_member m uid)
  have "causal.emits m [] (add_member m uid)"
    by (rule quiet_emits) (simp_all add: member_keeps)
  then show ?case using sec_member member_keeps(4) by blast
next
  case (sec_local m e)
  have "causal.emits m [] (apply_mc m e)"
    by (rule quiet_emits) (simp_all add: local_keeps)
  then show ?case using sec_local by (simp add: foreign_def local_keeps)
next
  case (sec_enqueue msg m)
  have "causal.emits m [] (enqueue m msg)"
    by (rule quiet_emits) (simp_all add: enqueue_def mc_known_def clock_of_def)
  then show ?case using sec_enqueue by (simp add: foreign_def enqueue_def)
next
  case (sec_forget m frame)
  have "causal.emits m [] (m\<lparr>rm_bufferAck := fmdrop frame (rm_bufferAck m)\<rparr>)"
    by (rule quiet_emits) (simp_all add: mc_known_def clock_of_def)
  then show ?case using sec_forget by (simp add: foreign_def)
qed

lemma run_emits: "mc_run m ms m' \<Longrightarrow> foreign m \<Longrightarrow> foreign m' \<and> causal.emits m ms m'"
proof (induction rule: mc_run.induct)
  case run_start
  then show ?case by (simp add: causal.emits_Nil)
next
  case (run_section xs m' ys m'')
  then show ?case using section_emits causal.emits_trans by blast
qed

section \<open>A new session\<close>

lemma fill_nodes_eq:
  "fill_nodes self ps i (pre @ replicate n []) vc =
     (if length (filter (\<lambda>p. p \<noteq> self) ps) \<le> n
      then Some (pre @ filter (\<lambda>p. p \<noteq> self) ps @ replicate (n - length (filter (\<lambda>p. p \<noteq> self) ps)) [],
                 fold (\<lambda>p. fmupd p 0) (filter (\<lambda>p. p \<noteq> self) ps) vc)
      else None)" if "i = length pre"
  using that
proof (induction ps arbitrary: i pre n vc)
  case (Cons p ps)
  show ?case
  proof (cases "p = self \<or> n = 0")
    case True
    then show ?thesis using Cons.IH [of i pre n vc] Cons.prems by auto
  next
    case False
    then obtain k where Suc: "n = Suc k" and p: "p \<noteq> self" by (cases n) auto
    have "(pre @ replicate n [])[i := p] = (pre @ [p]) @ replicate k []"
      using Suc Cons.prems by (simp add: list_update_append)
    moreover have "fill_nodes self ps (i + 1) ((pre @ [p]) @ replicate k []) (fmupd p 0 vc) =
      (if length (filter (\<lambda>p. p \<noteq> self) ps) \<le> k
       then Some ((pre @ [p]) @ filter (\<lambda>p. p \<noteq> self) ps @ replicate (k - length (filter (\<lambda>p. p \<noteq> self) ps)) [],
                 fold (\<lambda>p. fmupd p 0) (filter (\<lambda>p. p \<noteq> self) ps) (fmupd p 0 vc))
       else None)"
      by (rule Cons.IH) (simp add: Cons.prems)
    ultimately show ?thesis using Cons.prems Suc p by simp
  qed
qed simp

lemma length_others: "length (filter (\<lambda>p. p \<noteq> self) ps) = length ps - count_list ps self"
proof (induction ps)
  case (Cons p ps)
  then show ?case using count_le_length [of ps self] by (simp add: Suc_diff_le)
qed simp

lemma lookup_zeros:
  "fmlookup (fold (\<lambda>p. fmupd p 0) ps vc) k = (if k \<in> set ps then Some 0 else fmlookup vc k)"
  by (induction ps arbitrary: vc) auto

lemma new_session_cases:
  "(\<exists>m. NewReliableMulticast self port peers = Some m) = (self \<in> set peers \<and> 4 \<le> length self) \<and>
   (case NewReliableMulticast self port peers of
      None \<Rightarrow> True
    | Some m \<Rightarrow> rm_id m = self \<and> rm_frame m = 0 \<and> rm_holdBackQueue m = [] \<and> \<not> rm_quit m \<and>
        rm_nodeIds m = filter (\<lambda>p. p \<noteq> self) peers @ replicate (count_list peers self - 1) [] \<and>
        fmlookup (rm_vectorClock m) = (\<lambda>k. if k \<in> set peers then Some 0 else None))"
proof -
  have count: "length (filter (\<lambda>p. p \<noteq> self) peers) = length peers - count_list peers self"
    by (rule length_others)
  have le: "count_list peers self \<le> length peers" by (rule count_le_length)
  have pos: "self \<in> set peers \<longleftrightarrow> 0 < count_list peers self" using count_list_0_iff [of peers self] by auto
  have fill: "fill_nodes self peers 0 (replicate (length peers - 1) []) (fmupd self 0 fmempty) =
    (if self \<in> set peers \<or> peers = [] then
       Some (filter (\<lambda>p. p \<noteq> self) peers @ replicate (count_list peers self - 1) [],
             fold (\<lambda>p. fmupd p 0) (filter (\<lambda>p. p \<noteq> self) peers) (fmupd self 0 fmempty))
     else None)"
    using fill_nodes_eq [of 0 "[]" self peers "length peers - 1" "fmupd self 0 fmempty"] count le pos
    by (cases peers) auto
  show ?thesis
  proof (cases "self \<in> set peers \<and> 4 \<le> length self")
    case True
    then have "peers \<noteq> []" "\<not> length self < 4" by auto
    then show ?thesis
      unfolding NewReliableMulticast_def fill using True by (simp add: lookup_zeros fun_eq_iff)
  next
    case False
    then show ?thesis
      unfolding NewReliableMulticast_def fill by (cases "self \<in> set peers") auto
  qed
qed

lemma new_session_facts:
  assumes "NewReliableMulticast self port peers = Some m"
  shows "rm_id m = self" "rm_holdBackQueue m = []"
    "fmlookup (rm_vectorClock m) = (\<lambda>k. if k \<in> set peers then Some 0 else None)"
  using new_session_cases [of self port peers] assms by simp_all

text \<open>A session can be opened exactly when the own identifier, at least four bytes long, is among
  the members; it starts with the other members as nodes to wait for, in their order, an empty
  queue, a clock with an entry 0 for every member and for nobody else, and frame 0. (If the own
  identifier occurs more than once, the list of nodes ends with empty identifiers.)\<close>

lemma new_session:
  "(\<exists>m. NewReliableMulticast self port peers = Some m) = (self \<in> set peers \<and> 4 \<le> length self) \<and>
   (case NewReliableMulticast self port peers of
      None \<Rightarrow> True
    | Some m \<Rightarrow> rm_id m = self \<and> rm_frame m = 0 \<and> rm_holdBackQueue m = [] \<and> \<not> rm_quit m \<and>
        rm_nodeIds m = filter (\<lambda>p. p \<noteq> self) peers @ replicate (count_list peers self - 1) [] \<and>
        fmlookup (rm_vectorClock m) = (\<lambda>k. if k \<in> set peers then Some 0 else None))"
  by (rule new_session_cases)

lemma new_session_emits:
  assumes "NewReliableMulticast self port peers = Some m0" "mc_run m0 log m"
  shows "rm_id m0 = self" "clock_of m0 = (\<lambda>p. 0)" "\<And>p. p \<in> set peers \<Longrightarrow> mc_known m0 p"
    "causal.emits m0 log m"
proof -
  have new: "rm_id m0 = self" "rm_holdBackQueue m0 = []"
    "fmlookup (rm_vectorClock m0) = (\<lambda>k. if k \<in> set peers then Some 0 else None)"
    using new_session_facts [OF assms(1)] by simp_all
  show "rm_id m0 = self" "clock_of m0 = (\<lambda>p. 0)" "\<And>p. p \<in> set peers \<Longrightarrow> mc_known m0 p"
    using new by (auto simp: clock_of_def map_get_def fun_eq_iff mc_known_def)
  show "causal.emits m0 log m"
    using run_emits [OF assms(2)] new by (simp add: foreign_def)
qed

lemma sample_new:
  "NewReliableMulticast (lit ''aaaa'') 0 [lit ''aaaa'', lit ''bbbb'', lit ''cccc''] = Some (sample_node [])"
  by code_simp

lemma sample_arrivals:
  "map_option snd (DeliverMessages (enqueue (enqueue (sample_node []) sample_c) sample_b)) =
     Some [sample_b, sample_c]"
  by code_simp

lemma run_quiet: "mc_run m xs m' \<Longrightarrow> mc_section m' [] m'' \<Longrightarrow> mc_run m xs m''"
  using run_section by fastforce

lemma sample_mc_run: "\<exists>m. mc_run (sample_node []) [sample_b, sample_c] m"
proof -
  obtain m where m: "DeliverMessages (enqueue (enqueue (sample_node []) sample_c) sample_b) =
      Some (m, [sample_b, sample_c])"
    using sample_arrivals by auto
  have "mc_UUID sample_c \<noteq> rm_id (sample_node [])" "mc_UUID sample_b \<noteq> rm_id (enqueue (sample_node []) sample_c)"
    by code_simp+
  then have "mc_run (sample_node []) [] (enqueue (enqueue (sample_node []) sample_c) sample_b)"
    using run_quiet [OF run_quiet [OF run_start sec_enqueue] sec_enqueue] by blast
  then show ?thesis using run_section [OF _ sec_deliver [OF m]] by fastforce
qed

text \<open>C1: causal order. Take any node, from the start of a session, and any interleaving of its
  critical sections with any messages arriving in any order. If a message x is delivered after y,
  and x comes from a member of the session, then y was sent without knowledge of x: the entry of
  y's clock for x's sender is below the one of x. So no message is delivered before a message that
  its sender had sent or delivered earlier.\<close>

theorem causal_order:
  assumes "NewReliableMulticast self port peers = Some m0" "mc_run m0 log m"
  shows "sorted_wrt (\<lambda>y x. mc_UUID x \<in> set peers \<longrightarrow> stamp_of y (mc_UUID x) < stamp_of x (mc_UUID x)) log"
  using causal.emits_causal [OF new_session_emits(4) [OF assms] new_session_emits(2) [OF assms]]
  by (rule sorted_wrt_mono_rel [rotated]) (use new_session_emits(3) [OF assms] in blast)

theorem causal_order_witness:
  "stamp_of sample_b (lit ''cccc'') < stamp_of sample_c (lit ''cccc'')"
proof -
  obtain m where "mc_run (sample_node []) [sample_b, sample_c] m" using sample_mc_run by blast
  moreover have "mc_UUID sample_c = lit ''cccc''" by code_simp
  ultimately show ?thesis using causal_order [OF sample_new] by fastforce
qed

text \<open>C14: exactly once and without gaps. For every other process, the stamps of its delivered
  messages are 1, 2, 3, ... up to the entry that this node's clock has for it.\<close>

theorem fifo_exactly_once:
  assumes "NewReliableMulticast self port peers = Some m0" "mc_run m0 log m" "p \<noteq> self"
  shows "map (\<lambda>x. stamp_of x p) (filter (\<lambda>x. mc_UUID x = p) log) = [1..<Suc (clock_of m p)]"
  using causal.emits_consecutive [OF new_session_emits(4) [OF assms(1,2)] new_session_emits(2) [OF assms(1,2)]]
    new_session_emits(1) [OF assms(1,2)] assms(3) by blast

theorem fifo_exactly_once_witness:
  "\<exists>m. mc_run (sample_node []) [sample_b, sample_c] m \<and>
     map (\<lambda>x. stamp_of x (lit ''bbbb'')) (filter (\<lambda>x. mc_UUID x = lit ''bbbb'') [sample_b, sample_c]) =
       [1..<Suc (clock_of m (lit ''bbbb''))]"
proof -
  have "lit ''bbbb'' \<noteq> lit ''aaaa''" by code_simp
  then show ?thesis using sample_mc_run fifo_exactly_once [OF sample_new] by blast
qed

section \<open>The listener as critical sections\<close>

text \<open>What an iteration of the listener hands to \<open>msgChan\<close>, and what its goroutines will append.\<close>

definition delivered_now :: "mc_effect list \<Rightarrow> MMessage list" where
  "delivered_now effs = concat (map (\<lambda>e. case e of Deliver_Now ms \<Rightarrow> ms | _ \<Rightarrow> []) effs)"

definition spawned :: "mc_effect list \<Rightarrow> MMessage list" where
  "spawned effs = concat (map (\<lambda>e. case e of Spawn_Deliver x \<Rightarrow> [x] | _ \<Rightarrow> []) effs)"

lemma run_AddNewNode: "AddNewNode m uid = Some (m', ms) \<Longrightarrow> mc_run m ms m'"
  unfolding AddNewNode_def
  using run_section [OF mc_run_one [OF sec_member] sec_deliver] by fastforce

lemma run_RemoveDeadNode: "mc_run m ms m' \<Longrightarrow> mc_run m ms (RemoveDeadNode m' uid)"
  using run_quiet [OF _ sec_local [of m' "EvDead uid"]] by simp

lemma handle_message_run:
  assumes "handle_message m msg = Some (m', effs)"
  shows "mc_run m (delivered_now effs) m' \<and> (\<forall>x \<in> set (spawned effs). mc_UUID x \<noteq> rm_id m)"
proof (cases "mc_UUID msg = rm_id m")
  case True
  then show ?thesis
    using assms by (auto simp: handle_message_def delivered_now_def spawned_def intro: run_start)
next
  case False
  obtain d where d: "Decode (mc_Message msg) = Inr d"
    using assms False by (auto simp: handle_message_def Let_def split: sum.splits)
  obtain m1 ms where m1: "(if m_Type d = NewNode then AddNewNode m (m_UUID d) else Some (m, [])) = Some (m1, ms)"
    using assms False d by (auto simp: handle_message_def Let_def split: option.splits)
  have m': "m' = (if m_Type d = DeadNode then RemoveDeadNode m1 (m_UUID d) else m1)"
    and effs: "delivered_now effs = ms" "spawned effs = [msg]"
    using assms False d m1 by (auto simp: handle_message_def Let_def delivered_now_def spawned_def)
  have "mc_run m ms m1"
    using m1 run_AddNewNode run_start by (auto split: if_splits)
  then show ?thesis using m' effs False run_RemoveDeadNode by auto
qed

text \<open>An iteration of the listener is a sequence of critical sections, so the two properties above
  hold of what it delivers, and it starts goroutines for messages of other nodes only.\<close>

lemma listener_runs_sections:
  assumes "handle_datagram m ip datagram = Some (m', effs)"
  shows "mc_run m (delivered_now effs) m' \<and> list_all (\<lambda>x. mc_UUID x \<noteq> rm_id m) (spawned effs)"
  using assms handle_message_run
  by (auto simp: handle_datagram_def list_all_iff split: sum.splits io_error.splits)


definition sample_datagram :: bytes where
  "sample_datagram = encodeMulticastMessage []
     \<lparr>mc_Frame = 0, mc_IP = [], mc_UUID = lit ''bbbb'', mc_VectorClock = fmempty, mc_Message = [4]\<rparr>"

lemma sample_decode:
  "handle_datagram (sample_node []) [1] sample_datagram =
     Some (sample_node [],
       [Ack_To [1] (pad36 (lit ''bbbb'')) (NewMulticastAckMessage 0), Deliver_Now [],
        Spawn_Deliver \<lparr>mc_Frame = 0, mc_IP = [1], mc_UUID = pad36 (lit ''bbbb''),
          mc_VectorClock = fmempty, mc_Message = [4]\<rparr>])"
proof -
  have "length sample_datagram \<le> 1024"
    by (simp add: sample_datagram_def encodeMulticastMessage_def)
  then have "decodeMulticastMessage (recv_buf sample_datagram) [1] =
      Inr \<lparr>mc_Frame = 0, mc_IP = [1], mc_UUID = pad36 (lit ''bbbb''), mc_VectorClock = fmempty,
        mc_Message = [4]\<rparr>"
    unfolding sample_datagram_def
    by (simp add: decode_encode_multicast wf_mmessage_def canonical_mmessage_def max_alloc_def range_order_def)
  moreover have "pad36 (lit ''bbbb'') \<noteq> rm_id (sample_node [])" by code_simp
  moreover have "Decode [4] = Inr (typed_message Heartbeat)"
    by (simp add: Decode_def codec_simps message_types Let_def)
  ultimately show ?thesis
    by (simp add: handle_datagram_def handle_message_def Let_def typed_message_def message_types)
qed

lemma listener_runs_sections_witness:
  "\<exists>effs. handle_datagram (sample_node []) [1] sample_datagram = Some (sample_node [], effs) \<and>
     length (spawned effs) = 1 \<and> list_all (\<lambda>x. mc_UUID x \<noteq> rm_id (sample_node [])) (spawned effs)"
  using listener_runs_sections [OF sample_decode] sample_decode by (auto simp: spawned_def)

section \<open>What ends the process\<close>

lemma AddNewNode_total: "well_named (rm_holdBackQueue m) \<Longrightarrow> AddNewNode m uid \<noteq> None"
  unfolding AddNewNode_def
  by (rule deliver_total) (auto simp: add_member_def well_named_def add_clock_entry_def)

text \<open>
  A datagram the node cannot take: it does not decode, or it is a foreign message whose payload
  does not decode.
\<close>

definition fatal_datagram :: "gostring \<Rightarrow> bytes \<Rightarrow> bool" where
  "fatal_datagram self datagram \<longleftrightarrow>
     (case decodeMulticastMessage (recv_buf datagram) [] of
        Inl e \<Rightarrow> True
      | Inr msg \<Rightarrow> mc_UUID msg \<noteq> self \<and> (case Decode (mc_Message msg) of Inl e \<Rightarrow> True | Inr d \<Rightarrow> False))"

lemma decode_ip:
  "decodeMulticastMessage data ip =
     (case decodeMulticastMessage data [] of Inl e \<Rightarrow> Inl e | Inr m \<Rightarrow> Inr (m\<lparr>mc_IP := ip\<rparr>))"
  unfolding decodeMulticastMessage_def
  by (auto simp: and_then_def split: sum.splits prod.splits)

lemma Decode_Nil [simp]: "Decode [] = Inl EOF"
  by (simp add: Decode_def codec_simps)

lemma handle_message_None_iff:
  "well_named (rm_holdBackQueue m) \<Longrightarrow>
   handle_message m msg = None \<longleftrightarrow>
     mc_UUID msg \<noteq> rm_id m \<and> (case Decode (mc_Message msg) of Inl e \<Rightarrow> True | Inr d \<Rightarrow> False)"
proof (cases "Decode (mc_Message msg)")
  case (Inr d)
  assume "well_named (rm_holdBackQueue m)"
  then obtain r where "AddNewNode m (m_UUID d) = Some r"
    using AddNewNode_total by blast
  then show ?thesis using Inr by (cases r) (simp add: handle_message_def Let_def)
qed (simp add: handle_message_def Let_def)

lemma datagram_crash_iff:
  assumes "well_named (rm_holdBackQueue m)" "rm_id m \<noteq> []"
  shows "handle_datagram m ip datagram = None \<longleftrightarrow> fatal_datagram (rm_id m) datagram"
proof (cases "decodeMulticastMessage (recv_buf datagram) []")
  case (Inl e)
  then have "decodeMulticastMessage (recv_buf datagram) ip = Inl e"
    by (subst decode_ip) simp
  then show ?thesis
    using Inl assms handle_message_None_iff [OF assms(1), of zero_mmessage]
    by (cases e) (simp_all add: handle_datagram_def fatal_datagram_def zero_mmessage_def)
next
  case (Inr msg)
  then have "decodeMulticastMessage (recv_buf datagram) ip = Inr (msg\<lparr>mc_IP := ip\<rparr>)"
    by (subst decode_ip) simp
  then show ?thesis
    using Inr handle_message_None_iff [OF assms(1)]
    by (simp add: handle_datagram_def fatal_datagram_def)
qed

text \<open>C33: the listener survives a datagram exactly when it decodes and, unless it is the node's own,
  its payload decodes as well. Every other datagram on the port of the group, whoever sent it and be it empty, ends
  the process: the code logs the error and goes on with a message it then dereferences.\<close>

theorem fatal_datagram_crashes:
  assumes "well_named (rm_holdBackQueue m)" "rm_id m \<noteq> []"
  shows "handle_datagram m ip datagram = None \<longleftrightarrow> fatal_datagram (rm_id m) datagram"
  by (rule datagram_crash_iff [OF assms])

theorem fatal_datagram_crashes_witness:
  "handle_datagram (sample_node []) [1] [] = None"
proof -
  have "fatal_datagram (rm_id (sample_node [])) []"
    by (simp add: fatal_datagram_def decodeMulticastMessage_def codec_simps)
  moreover have "rm_id (sample_node []) \<noteq> []" by code_simp
  ultimately show ?thesis
    using fatal_datagram_crashes [of "sample_node []"] by (simp add: sample_node_def)
qed

text \<open>C34: once a session has 25 members, the first application message that any of them multicasts
  ends the process of every node that receives it: the message's clock does not fit the receive
  buffer.\<close>

theorem large_group_crash:
  assumes "SendMessage s ks payload = Some (s', enc, frame)"
    and "range_order ks (rm_vectorClock s')" "fmpred (\<lambda>k c. length k = 36) (rm_vectorClock s')"
    and "25 \<le> map_len (rm_vectorClock s')" "map_len (rm_vectorClock s') < 2 ^ 32"
    and "rm_id m \<noteq> []"
  shows "handle_datagram m ip enc = None"
proof -
  let ?msg = "\<lparr>mc_Frame = frame, mc_IP = [], mc_UUID = rm_id s, mc_VectorClock = rm_vectorClock s',
    mc_Message = payload\<rparr>"
  have "enc = encodeMulticastMessage ks ?msg"
    using assms(1) by (auto simp: SendMessage_def Let_def split: option.splits)
  then have "decodeMulticastMessage (recv_buf enc) ip = Inl EOF"
    using decode_large_group [of ks ?msg ip] assms(2-5) by simp
  then show ?thesis
    using assms(6) by (simp add: handle_datagram_def handle_message_def zero_mmessage_def)
qed

definition big_group :: "gostring list" where
  "big_group = map (\<lambda>i. replicate 36 (of_nat i)) [0..<25]"

theorem large_group_crash_witness:
  "\<exists>m0 s' enc. NewReliableMulticast (replicate 36 0) 0 big_group = Some m0 \<and>
     SendMessage m0 big_group [4] = Some (s', enc, 0) \<and>
     handle_datagram (sample_node []) [1] enc = None"
proof -
  have "replicate 36 0 \<in> set big_group" unfolding big_group_def by code_simp
  then obtain m0 where m0: "NewReliableMulticast (replicate 36 0) 0 big_group = Some m0"
    using new_session_cases [of "replicate 36 0" 0 big_group] by auto
  have vc: "fmlookup (rm_vectorClock m0) = (\<lambda>k. if k \<in> set big_group then Some 0 else None)"
    and id: "rm_id m0 = replicate 36 0"
    using new_session_facts [OF m0] by simp_all
  obtain s' enc where s': "SendMessage m0 big_group [4] = Some (s', enc, rm_frame m0)"
    "rm_vectorClock s' = fmupd (replicate 36 0) 1 (rm_vectorClock m0)"
    using vc id \<open>replicate 36 0 \<in> set big_group\<close> by (simp add: SendMessage_def Let_def)
  have dom: "fset (fmdom (rm_vectorClock s')) = set big_group"
    using \<open>replicate 36 0 \<in> set big_group\<close> vc by (auto simp: s'(2) fmlookup_dom_iff split: if_splits)
  have "distinct big_group" unfolding big_group_def by code_simp
  moreover have "fset_of_list big_group = fmdom (rm_vectorClock s')"
    using dom by (metis fset_inject fset_of_list.rep_eq)
  ultimately have ord: "range_order big_group (rm_vectorClock s')"
    by (simp add: range_order_def)
  have keys: "fmpred (\<lambda>k c. length k = 36) (rm_vectorClock s')"
    using dom by (fastforce simp: fmpred_iff big_group_def dest: fmdomI)
  have "map_len (rm_vectorClock s') = 25"
    using range_order_length [OF ord] by (simp add: big_group_def)
  moreover have "rm_id (sample_node []) \<noteq> []" by code_simp
  ultimately have "handle_datagram (sample_node []) [1] enc = None"
    using large_group_crash [OF s'(1) ord keys] by simp
  moreover have "rm_frame m0 = 0" using new_session_cases [of "replicate 36 0" 0 big_group] m0 by simp
  ultimately show ?thesis using m0 s'(1) by auto
qed

end
