(* ===== verification/CausalNetwork.thy ===== *)
theory CausalNetwork
  imports CausalDelivery
begin

text \<open>
  A multicast session as a whole: its members' \<open>ReliableMulticast\<close> objects with the goroutines of
  their listeners, and a network that may hand a datagram to a node never, once or many times, in
  any order and at any time. The invariant ties every clock, queue and log to what was sent; from it
  come the agreement of the logs with the senders and the absence of stuck messages.
\<close>

section \<open>The session\<close>

text \<open>
  The nodes, the messages sent and their datagrams, the goroutines of each node that still have
  to append their message, and what each node has delivered.
\<close>

record session =
  ss_node :: "gostring \<Rightarrow> ReliableMulticast"
  ss_sent :: "MMessage list"
  ss_wire :: "bytes list"
  ss_pending :: "gostring \<Rightarrow> MMessage list"
  ss_log :: "gostring \<Rightarrow> MMessage list"

definition sent_message :: "ReliableMulticast \<Rightarrow> bytes \<Rightarrow> ReliableMulticast \<Rightarrow> MMessage" where
  "sent_message m payload m' = \<lparr>mc_Frame = rm_frame m, mc_IP = [], mc_UUID = rm_id m,
     mc_VectorClock = rm_vectorClock m', mc_Message = payload\<rparr>"

definition session_init :: "gostring list \<Rightarrow> u32 \<Rightarrow> session \<Rightarrow> bool" where
  "session_init members port s \<longleftrightarrow>
     (\<forall>i \<in> set members. NewReliableMulticast i port members = Some (ss_node s i)) \<and>
     ss_sent s = [] \<and> ss_wire s = [] \<and> ss_pending s = (\<lambda>i. []) \<and> ss_log s = (\<lambda>i. [])"

text \<open>
  What a session carries: payloads that decode, no NewNode messages (the program never sends one,
  it opens a new session for a new member), and datagrams that fit the receive buffer.
\<close>

definition carried :: "bytes \<Rightarrow> bytes \<Rightarrow> bool" where
  "carried payload enc \<longleftrightarrow> length enc \<le> 1024 \<and>
     (case Decode payload of Inl e \<Rightarrow> False | Inr d \<Rightarrow> m_Type d \<noteq> NewNode)"

inductive session_step :: "gostring list \<Rightarrow> session \<Rightarrow> session \<Rightarrow> bool" for members where
  step_send: "i \<in> set members \<Longrightarrow> SendMessage (ss_node s i) ks payload = Some (m', enc, frame) \<Longrightarrow>
     range_order ks (rm_vectorClock m') \<Longrightarrow> carried payload enc \<Longrightarrow>
     session_step members s
       (s\<lparr>ss_node := (ss_node s)(i := m'),
          ss_sent := ss_sent s @ [sent_message (ss_node s i) payload m'],
          ss_wire := enc # ss_wire s\<rparr>)"
| step_receive: "j \<in> set members \<Longrightarrow> d \<in> set (ss_wire s) \<Longrightarrow>
     handle_datagram (ss_node s j) ip d = Some (m', effs) \<Longrightarrow>
     session_step members s
       (s\<lparr>ss_node := (ss_node s)(j := m'),
          ss_pending := (ss_pending s)(j := ss_pending s j @ spawned effs),
          ss_log := (ss_log s)(j := ss_log s j @ delivered_now effs)\<rparr>)"
| step_enqueue: "j \<in> set members \<Longrightarrow> x \<in> set (ss_pending s j) \<Longrightarrow>
     session_step members s
       (s\<lparr>ss_node := (ss_node s)(j := enqueue (ss_node s j) x),
          ss_pending := (ss_pending s)(j := remove1 x (ss_pending s j))\<rparr>)"
| step_deliver: "j \<in> set members \<Longrightarrow> DeliverMessages (ss_node s j) = Some (m', ms) \<Longrightarrow>
     session_step members s
       (s\<lparr>ss_node := (ss_node s)(j := m'), ss_log := (ss_log s)(j := ss_log s j @ ms)\<rparr>)"
| step_ack: "j \<in> set members \<Longrightarrow>
     session_step members s (s\<lparr>ss_node := (ss_node s)(j := OnAck (ss_node s j) uuid frame)\<rparr>)"
| step_dead: "j \<in> set members \<Longrightarrow>
     session_step members s (s\<lparr>ss_node := (ss_node s)(j := RemoveDeadNode (ss_node s j) uid)\<rparr>)"

section \<open>The invariant\<close>

definition by_sender :: "gostring \<Rightarrow> MMessage list \<Rightarrow> MMessage list" where
  "by_sender p xs = filter (\<lambda>x. mc_UUID x = p) xs"

lemma by_sender_simps [simp]:
  "by_sender p [] = []"
  "by_sender p (x # xs) = (if mc_UUID x = p then x # by_sender p xs else by_sender p xs)"
  "by_sender p (xs @ ys) = by_sender p xs @ by_sender p ys"
  by (simp_all add: by_sender_def)

definition strip :: "MMessage \<Rightarrow> MMessage" where
  "strip x = x\<lparr>mc_IP := []\<rparr>"

lemma strip_simps [simp]:
  "mc_UUID (strip x) = mc_UUID x" "mc_VectorClock (strip x) = mc_VectorClock x"
  "stamp_of (strip x) p = stamp_of x p" "strip (x\<lparr>mc_IP := ip\<rparr>) = strip x"
  by (simp_all add: strip_def stamp_of_def)

text \<open>
  Of the sent messages: each has an entry for every member, counts itself, and counts of every
  other member only what that member had sent before.
\<close>

definition sent_ok :: "gostring list \<Rightarrow> MMessage list \<Rightarrow> bool" where
  "sent_ok members S \<longleftrightarrow>
     (\<forall>n < length S. mc_UUID (S ! n) \<in> set members \<and> mc_IP (S ! n) = [] \<and>
        (\<forall>p \<in> set members. fmlookup (mc_VectorClock (S ! n)) p \<noteq> None \<and>
          (if p = mc_UUID (S ! n) then stamp_of (S ! n) p = Suc (length (by_sender p (take n S)))
           else stamp_of (S ! n) p \<le> length (by_sender p (take n S)))))"

text \<open>
  Of one member: its clock counts the own messages and no more than the sent ones of the others;
  its queue holds sent messages of others; its log has, for each other member, the first
  messages that member sent, as many as the clock says.
\<close>

definition node_ok :: "gostring list \<Rightarrow> gostring \<Rightarrow> MMessage list \<Rightarrow> ReliableMulticast \<Rightarrow> MMessage list \<Rightarrow> bool" where
  "node_ok members i S m log \<longleftrightarrow>
     rm_id m = i \<and> (\<forall>p. fmlookup (rm_vectorClock m) p \<noteq> None \<longleftrightarrow> p \<in> set members) \<and>
     clock_of m i = length (by_sender i S) \<and>
     (\<forall>p. clock_of m p \<le> length (by_sender p S)) \<and>
     (\<forall>x \<in> set (rm_holdBackQueue m). strip x \<in> set S \<and> mc_UUID x \<noteq> i) \<and>
     (\<forall>p. p \<noteq> i \<longrightarrow> map strip (by_sender p log) = take (clock_of m p) (by_sender p S))"

text \<open>Of the network: every datagram is the encoding of a sent message, in some order of its clock.\<close>

definition wire_ok :: "MMessage list \<Rightarrow> bytes list \<Rightarrow> bool" where
  "wire_ok S W \<longleftrightarrow>
     (\<forall>d \<in> set W. \<exists>x \<in> set S. \<exists>ks. d = encodeMulticastMessage ks x \<and>
        range_order ks (mc_VectorClock x) \<and> wf_mmessage x \<and> carried (mc_Message x) d \<and>
        length (mc_UUID x) = 36)"

text \<open>Of the goroutines: they hold sent messages of other members.\<close>

definition pending_ok :: "gostring \<Rightarrow> MMessage list \<Rightarrow> MMessage list \<Rightarrow> bool" where
  "pending_ok i S q \<longleftrightarrow> (\<forall>x \<in> set q. strip x \<in> set S \<and> mc_UUID x \<noteq> i)"

definition session_inv :: "gostring list \<Rightarrow> session \<Rightarrow> bool" where
  "session_inv members s \<longleftrightarrow>
     ((\<forall>i \<in> set members. length i = 36) \<and> length (ss_sent s) < 2 ^ 32 \<longrightarrow>
       sent_ok members (ss_sent s) \<and> wire_ok (ss_sent s) (ss_wire s) \<and>
       (\<forall>i \<in> set members. node_ok members i (ss_sent s) (ss_node s i) (ss_log s i) \<and>
          pending_ok i (ss_sent s) (ss_pending s i)))"

lemma by_sender_nth:
  "n < length S \<Longrightarrow> mc_UUID (S ! n) = p \<Longrightarrow> length (by_sender p (take n S)) < length (by_sender p S) \<and>
     by_sender p S ! length (by_sender p (take n S)) = S ! n"
proof -
  assume n: "n < length S" "mc_UUID (S ! n) = p"
  have "by_sender p S = by_sender p (take n S @ S ! n # drop (Suc n) S)"
    using id_take_nth_drop [OF n(1)] by simp
  then show ?thesis using n(2) by (simp add: nth_append)
qed

text \<open>A sent message is the one of its sender that its stamp says.\<close>

lemma sent_ok_nth:
  assumes "sent_ok members S" "y \<in> set S"
  shows "mc_UUID y \<in> set members" "0 < stamp_of y (mc_UUID y)"
    "stamp_of y (mc_UUID y) \<le> length (by_sender (mc_UUID y) S)"
    "by_sender (mc_UUID y) S ! (stamp_of y (mc_UUID y) - 1) = y"
proof -
  obtain n where n: "n < length S" "y = S ! n" using assms(2) by (metis in_set_conv_nth)
  then have y: "mc_UUID y \<in> set members"
    "stamp_of y (mc_UUID y) = Suc (length (by_sender (mc_UUID y) (take n S)))"
    using assms(1) by (auto simp: sent_ok_def)
  then show "mc_UUID y \<in> set members" "0 < stamp_of y (mc_UUID y)"
    "stamp_of y (mc_UUID y) \<le> length (by_sender (mc_UUID y) S)"
    "by_sender (mc_UUID y) S ! (stamp_of y (mc_UUID y) - 1) = y"
    using by_sender_nth [OF n(1)] n(2) by auto
qed

section \<open>Every step keeps the invariant\<close>

lemma node_ok_init:
  assumes "NewReliableMulticast i port members = Some m"
  shows "node_ok members i [] m []"
proof -
  have "(\<exists>m. NewReliableMulticast i port members = Some m) = (i \<in> set members \<and> 4 \<le> length i)"
    using new_session_cases [of i port members] by blast
  then show ?thesis
    using assms new_session_facts [OF assms]
    by (auto simp: node_ok_def clock_of_def map_get_def)
qed

lemma take_message_node_ok:
  assumes "sent_ok members S" "node_ok members i S m log"
    and "rm_holdBackQueue m = as @ x # bs" "if b then deliverable m x else duplicate m x"
  shows "node_ok members i S (take_message m b x (as @ bs)) (log @ (if b then [x] else []))"
proof (cases b)
  case False
  then show ?thesis using assms(2,3) by (auto simp: node_ok_def)
next
  case True
  let ?p = "mc_UUID x"
  have del: "deliverable m x" using assms(4) True by simp
  have sx: "strip x \<in> set S" and px: "?p \<noteq> i"
    using assms(2,3) by (simp_all add: node_ok_def)
  have stamp: "stamp_of x ?p = Suc (clock_of m ?p)" using del by (simp add: deliverable_def)
  have "clock_of m ?p < length (by_sender ?p S)" "by_sender ?p S ! clock_of m ?p = strip x"
    using sent_ok_nth(3,4) [OF assms(1) sx] stamp by simp_all
  then have "take (Suc (clock_of m ?p)) (by_sender ?p S) = take (clock_of m ?p) (by_sender ?p S) @ [strip x]"
    "Suc (clock_of m ?p) \<le> length (by_sender ?p S)"
    by (simp_all add: take_Suc_conv_app_nth)
  moreover have "fmlookup (rm_vectorClock (take_message m True x (as @ bs))) k = None \<longleftrightarrow>
      fmlookup (rm_vectorClock m) k = None" for k
    using del by (simp del: take_message_simps)
  ultimately show ?thesis
    using True assms(2,3) px clock_of_take(2) [OF del] unfolding node_ok_def
    by (simp del: not_None_eq)
qed

lemma DeliverMessages_node_ok:
  "DeliverMessages m = Some (m', ms) \<Longrightarrow> sent_ok members S \<Longrightarrow>
     \<forall>log. node_ok members i S m log \<longrightarrow> node_ok members i S m' (log @ ms)"
proof (induction rule: DeliverMessages_induct)
  case (found m b x as bs m' ms)
  show ?case
  proof (intro allI impI)
    fix log assume "node_ok members i S m log"
    from take_message_node_ok [OF found.prems this found(1,2)] found(3) [OF found.prems]
    show "node_ok members i S m' (log @ (if b then x # ms else ms))"
      by (auto split: if_splits)
  qed
qed simp

lemma length_by_sender: "length (by_sender p S) \<le> length S"
  by (simp add: by_sender_def)

lemma node_ok_other:
  assumes "node_ok members j S m log" "mc_UUID x \<noteq> j"
  shows "node_ok members j (S @ [x]) m log"
proof -
  have "take (clock_of m p) (by_sender p (S @ [x])) = take (clock_of m p) (by_sender p S)" for p
    using assms(1) by (simp add: node_ok_def)
  then show ?thesis
    using assms unfolding node_ok_def by (auto simp: le_SucI)
qed

lemma SendMessage_facts:
  assumes "SendMessage m ks d = Some (m', enc, frame)" "clock_of m (rm_id m) < 2 ^ 32 - 1"
  shows "rm_id m' = rm_id m" "rm_holdBackQueue m' = rm_holdBackQueue m"
    "clock_of m' = (clock_of m)(rm_id m := Suc (clock_of m (rm_id m)))"
    "\<And>p. (fmlookup (rm_vectorClock m') p = None) = (fmlookup (rm_vectorClock m) p = None)"
proof -
  obtain c where c: "fmlookup (rm_vectorClock m) (rm_id m) = Some c"
    using assms(1) by (auto simp: SendMessage_def split: option.splits)
  have m': "rm_id m' = rm_id m" "rm_holdBackQueue m' = rm_holdBackQueue m"
    "rm_vectorClock m' = fmupd (rm_id m) (c + 1) (rm_vectorClock m)"
    using assms(1) c by (auto simp: SendMessage_def Let_def)
  have "unat (c + 1) = Suc (unat c)"
    using assms(2) c unat_add_lem [of c 1] by (simp add: clock_of_def)
  then show "clock_of m' = (clock_of m)(rm_id m := Suc (clock_of m (rm_id m)))"
    using m' c by (auto simp: clock_of_def fun_eq_iff)
  show "rm_id m' = rm_id m" "rm_holdBackQueue m' = rm_holdBackQueue m"
    "\<And>p. (fmlookup (rm_vectorClock m') p = None) = (fmlookup (rm_vectorClock m) p = None)"
    using m' c by auto
qed

lemma send_keeps:
  assumes S: "sent_ok members S" and i: "i \<in> set members" "node_ok members i S m log"
    and send: "SendMessage m ks d = Some (m', enc, frame)" and len: "Suc (length S) < 2 ^ 32"
  shows "sent_ok members (S @ [sent_message m d m'])"
    "node_ok members i (S @ [sent_message m d m']) m' log"
proof -
  let ?x = "sent_message m d m'"
  have own: "rm_id m = i" "clock_of m i = length (by_sender i S)" using i(2) by (simp_all add: node_ok_def)
  then have lt: "clock_of m (rm_id m) < 2 ^ 32 - 1"
    using len length_by_sender [of i S] by simp
  note f = SendMessage_facts [OF send lt]
  have x: "mc_UUID ?x = i" "mc_IP ?x = []" "mc_VectorClock ?x = rm_vectorClock m'"
    "stamp_of ?x = clock_of m'"
    using own by (simp_all add: sent_message_def stamp_of_def clock_of_def fun_eq_iff)
  show "sent_ok members (S @ [?x])"
    unfolding sent_ok_def
  proof (intro allI impI)
    fix n assume n: "n < length (S @ [?x])"
    show "mc_UUID ((S @ [?x]) ! n) \<in> set members \<and> mc_IP ((S @ [?x]) ! n) = [] \<and>
        (\<forall>p \<in> set members. fmlookup (mc_VectorClock ((S @ [?x]) ! n)) p \<noteq> None \<and>
          (if p = mc_UUID ((S @ [?x]) ! n)
           then stamp_of ((S @ [?x]) ! n) p = Suc (length (by_sender p (take n (S @ [?x]))))
           else stamp_of ((S @ [?x]) ! n) p \<le> length (by_sender p (take n (S @ [?x])))))"
    proof (cases "n < length S")
      case True
      then show ?thesis using S by (simp add: sent_ok_def nth_append)
    next
      case False
      then have "n = length S" using n by simp
      then show ?thesis
        using x i f own by (auto simp: node_ok_def simp del: not_None_eq)
    qed
  qed
  have "take (clock_of m' p) (by_sender p (S @ [?x])) = take (clock_of m p) (by_sender p S)" if "p \<noteq> i" for p
    using that x f own i(2) by (simp add: node_ok_def)
  moreover have "clock_of m' p \<le> length (by_sender p (S @ [?x]))" for p
    using x f own i(2) by (simp add: node_ok_def)
  ultimately show "node_ok members i (S @ [?x]) m' log"
    using x f own i(2) unfolding node_ok_def by (auto simp del: not_None_eq)
qed

lemma local_node_ok:
  "node_ok members i S (OnAck m uuid frame) log = node_ok members i S m log"
  "node_ok members i S (RemoveDeadNode m uid) log = node_ok members i S m log"
  by (simp_all add: node_ok_def OnAck_def RemoveDeadNode_def clock_of_def split: option.splits)

lemma enqueue_node_ok:
  "node_ok members i S m log \<Longrightarrow> strip x \<in> set S \<Longrightarrow> mc_UUID x \<noteq> i \<Longrightarrow>
   node_ok members i S (enqueue m x) log"
  by (auto simp: node_ok_def enqueue_def clock_of_def)

text \<open>A datagram of the session is taken for the message that was sent, with the address it came from.\<close>

lemma handle_sent_datagram:
  assumes "range_order ks (mc_VectorClock x)" "wf_mmessage x" "length (mc_UUID x) = 36"
    and "carried (mc_Message x) (encodeMulticastMessage ks x)"
    and "handle_datagram m ip (encodeMulticastMessage ks x) = Some (m', effs)"
  shows "delivered_now effs = [] \<and> (m' = m \<or> (\<exists>uid. m' = RemoveDeadNode m uid)) \<and>
    spawned effs = (if mc_UUID x = rm_id m then [] else [x\<lparr>mc_IP := ip\<rparr>])"
proof -
  have len: "length (encodeMulticastMessage ks x) \<le> 1024" using assms(4) by (simp add: carried_def)
  have dec: "decodeMulticastMessage (recv_buf (encodeMulticastMessage ks x)) ip = Inr (x\<lparr>mc_IP := ip\<rparr>)"
    using len decode_encode_multicast [OF assms(2,1)] assms(3) by (simp add: canonical_mmessage_def)
  obtain d where d: "Decode (mc_Message x) = Inr d" "m_Type d \<noteq> NewNode"
    using assms(4) by (auto simp: carried_def split: sum.splits)
  show ?thesis
    using assms(5) dec d
    by (auto simp: handle_datagram_def handle_message_def Let_def delivered_now_def spawned_def split: if_splits)
qed

lemma pending_ok_mono: "pending_ok i S q \<Longrightarrow> pending_ok i (S @ [x]) q"
  by (auto simp: pending_ok_def)

lemma wire_ok_mono: "wire_ok S W \<Longrightarrow> wire_ok (S @ [x]) W"
  by (fastforce simp: wire_ok_def)

lemma length_encode_clock: "40 * length ks \<le> length (encodeMulticastMessage ks x)"
  by (simp add: encodeMulticastMessage_def length_put_clocks)

lemma length_encode_payload: "length (mc_Message x) \<le> length (encodeMulticastMessage ks x)"
  by (simp add: encodeMulticastMessage_def)

lemma sent_encoding:
  "SendMessage m ks payload = Some (m', enc, frame) \<Longrightarrow> enc = encodeMulticastMessage ks (sent_message m payload m')"
  by (auto simp: SendMessage_def Let_def sent_message_def split: option.splits)

lemma send_wire:
  assumes "SendMessage m ks payload = Some (m', enc, frame)" "range_order ks (rm_vectorClock m')"
    and "carried payload enc" "\<And>p. fmlookup (rm_vectorClock m') p \<noteq> None \<Longrightarrow> length p = 36"
    and "length (rm_id m) = 36"
  shows "wire_ok [sent_message m payload m'] [enc]"
proof -
  let ?x = "sent_message m payload m'"
  have enc: "enc = encodeMulticastMessage ks ?x" using sent_encoding [OF assms(1)] .
  have le: "length enc \<le> 1024" "payload \<noteq> []"
    using assms(3) by (auto simp: carried_def)
  have "map_len (rm_vectorClock m') < 2 ^ 32"
    using length_encode_clock [of ks ?x] le(1) enc range_order_length [OF assms(2)] by simp
  moreover have "length payload \<le> max_alloc"
    using length_encode_payload [of ?x ks] le(1) enc by (simp add: sent_message_def max_alloc_def)
  ultimately have "wf_mmessage ?x"
    using assms(4) le(2) by (auto simp: wf_mmessage_def sent_message_def fmpred_iff)
  then show ?thesis
    using assms(2,3,5) enc by (auto simp: wire_ok_def sent_message_def)
qed

lemma session_step_inv: "session_step members s t \<Longrightarrow> session_inv members s \<Longrightarrow> session_inv members t"
proof (induction rule: session_step.induct)
  case (step_send i s ks payload m' enc frame)
  let ?x = "sent_message (ss_node s i) payload m'"
  let ?t = "s\<lparr>ss_node := (ss_node s)(i := m'), ss_sent := ss_sent s @ [?x], ss_wire := enc # ss_wire s\<rparr>"
  show ?case
    unfolding session_inv_def
  proof (intro impI)
    assume "(\<forall>i \<in> set members. length i = 36) \<and> length (ss_sent ?t) < 2 ^ 32"
    then have len: "Suc (length (ss_sent s)) < 2 ^ 32" and ids: "\<forall>i \<in> set members. length i = 36" by simp_all
    then have inv: "sent_ok members (ss_sent s)" "wire_ok (ss_sent s) (ss_wire s)"
      "\<forall>j \<in> set members. node_ok members j (ss_sent s) (ss_node s j) (ss_log s j)"
      "\<forall>j \<in> set members. pending_ok j (ss_sent s) (ss_pending s j)"
      using step_send.prems by (simp_all add: session_inv_def)
    have id: "rm_id (ss_node s i) = i" using inv(3) step_send.hyps(1) by (simp add: node_ok_def)
    then have uuid: "mc_UUID ?x = i" by (simp add: sent_message_def)
    note keeps = send_keeps [OF inv(1) step_send.hyps(1) bspec [OF inv(3) step_send.hyps(1)] step_send.hyps(2) len]
    have "length p = 36" if "fmlookup (rm_vectorClock m') p \<noteq> None" for p
      using keeps(2) ids that by (simp add: node_ok_def)
    then have "wire_ok [?x] [enc]"
      using send_wire [OF step_send.hyps(2-4)] id ids step_send.hyps(1) by simp
    then have "wire_ok (ss_sent s @ [?x]) (enc # ss_wire s)"
      using wire_ok_mono [OF inv(2), of ?x] by (simp add: wire_ok_def)
    then show "sent_ok members (ss_sent ?t) \<and> wire_ok (ss_sent ?t) (ss_wire ?t) \<and>
      (\<forall>j \<in> set members. node_ok members j (ss_sent ?t) (ss_node ?t j) (ss_log ?t j) \<and>
         pending_ok j (ss_sent ?t) (ss_pending ?t j))"
      using keeps inv(3,4) uuid by (auto intro: node_ok_other pending_ok_mono)
  qed
next
  case (step_receive j d s ip m' effs)
  show ?case
    unfolding session_inv_def
  proof (intro impI)
    let ?t = "s\<lparr>ss_node := (ss_node s)(j := m'),
          ss_pending := (ss_pending s)(j := ss_pending s j @ spawned effs),
          ss_log := (ss_log s)(j := ss_log s j @ delivered_now effs)\<rparr>"
    assume "(\<forall>i \<in> set members. length i = 36) \<and> length (ss_sent ?t) < 2 ^ 32"
    then have inv: "sent_ok members (ss_sent s)" "wire_ok (ss_sent s) (ss_wire s)"
      "\<forall>i \<in> set members. node_ok members i (ss_sent s) (ss_node s i) (ss_log s i)"
      "\<forall>i \<in> set members. pending_ok i (ss_sent s) (ss_pending s i)"
      using step_receive.prems by (simp_all add: session_inv_def)
    obtain x ks where x: "x \<in> set (ss_sent s)" "d = encodeMulticastMessage ks x"
      "range_order ks (mc_VectorClock x)" "wf_mmessage x" "carried (mc_Message x) d" "length (mc_UUID x) = 36"
      using inv(2) step_receive.hyps(2) by (auto simp: wire_ok_def)
    have h: "delivered_now effs = []" "m' = ss_node s j \<or> (\<exists>uid. m' = RemoveDeadNode (ss_node s j) uid)"
      "spawned effs = (if mc_UUID x = rm_id (ss_node s j) then [] else [x\<lparr>mc_IP := ip\<rparr>])"
      using handle_sent_datagram [OF x(3,4,6)] x(2,5) step_receive.hyps(3) by blast+
    have "mc_IP x = []" using inv(1) x(1) by (metis in_set_conv_nth sent_ok_def)
    then have "strip x = x" by (simp add: strip_def)
    moreover have "rm_id (ss_node s j) = j" using inv(3) step_receive.hyps(1) by (simp add: node_ok_def)
    ultimately have "pending_ok j (ss_sent s) (ss_pending s j @ spawned effs)"
      using inv(4) h(3) x(1) step_receive.hyps(1) by (auto simp: pending_ok_def)
    moreover have "node_ok members j (ss_sent s) m' (ss_log s j)"
      using h(2) inv(3) step_receive.hyps(1) local_node_ok(2) by auto
    ultimately show "sent_ok members (ss_sent ?t) \<and> wire_ok (ss_sent ?t) (ss_wire ?t) \<and>
      (\<forall>i \<in> set members. node_ok members i (ss_sent ?t) (ss_node ?t i) (ss_log ?t i) \<and>
         pending_ok i (ss_sent ?t) (ss_pending ?t i))"
      using inv h(1) by simp
  qed
next
  case (step_enqueue j x s)
  then show ?case
    by (auto simp: session_inv_def pending_ok_def intro!: enqueue_node_ok
        dest!: subsetD [OF set_remove1_subset])
next
  case (step_deliver j s m' ms)
  then show ?case using DeliverMessages_node_ok by (fastforce simp: session_inv_def)
next
  case (step_ack j s uuid frame)
  then show ?case by (simp add: session_inv_def local_node_ok)
next
  case (step_dead j s uid)
  then show ?case by (simp add: session_inv_def local_node_ok)
qed

interpretation multicast_session: invariant_system
  "session_init members port" "session_step members" "session_inv members" for members port
proof
  fix s assume "session_init members port s"
  then show "session_inv members s"
    by (auto simp: session_init_def session_inv_def sent_ok_def wire_ok_def pending_ok_def intro: node_ok_init)
qed (rule session_step_inv)

section \<open>No message gets stuck\<close>

definition arrived :: "ReliableMulticast \<Rightarrow> MMessage \<Rightarrow> bool" where
  "arrived m x \<longleftrightarrow> stamp_of x (mc_UUID x) \<le> clock_of m (mc_UUID x) \<or>
     x \<in> strip ` set (rm_holdBackQueue m)"

text \<open>
  When every sent message was delivered or waits in the queue, and nothing in the queue can be
  delivered, then everything was delivered: the first undelivered message in the order of
  sending only depends on earlier ones.
\<close>

lemma quiescent_all_delivered:
  assumes S: "sent_ok members S" and m: "node_ok members i S m log"
    and arrived: "\<forall>x \<in> set S. mc_UUID x \<noteq> i \<longrightarrow> arrived m x"
    and quiet: "\<forall>x \<in> set (rm_holdBackQueue m). \<not> deliverable m x \<and> \<not> duplicate m x"
  shows "n \<le> length S \<Longrightarrow> length (by_sender p (take n S)) \<le> clock_of m p"
proof (induction n arbitrary: p)
  case (Suc n)
  then have n: "n < length S" by simp
  define x where "x = S ! n"
  have take: "take (Suc n) S = take n S @ [x]" using n by (simp add: x_def take_Suc_conv_app_nth)
  have IH: "length (by_sender p (take n S)) \<le> clock_of m p" for p using Suc by simp
  show ?case
  proof (cases "mc_UUID x = p \<and> p \<noteq> i")
    case True
    have x: "x \<in> set S" using n by (simp add: x_def)
    have ok: "mc_UUID x \<in> set members" "stamp_of x p = Suc (length (by_sender p (take n S)))"
      "\<forall>q \<in> set members. fmlookup (mc_VectorClock x) q \<noteq> None \<and>
         (q \<noteq> p \<longrightarrow> stamp_of x q \<le> length (by_sender q (take n S)))"
      using S n True by (auto simp: sent_ok_def x_def)
    show ?thesis
    proof (rule ccontr)
      assume "\<not> length (by_sender p (take (Suc n) S)) \<le> clock_of m p"
      then have stamp: "stamp_of x p = Suc (clock_of m p)"
        using take True ok(2) IH [of p] by simp
      then obtain y where y: "y \<in> set (rm_holdBackQueue m)" "strip y = x"
        using arrived x True by (auto simp: arrived_def)
      have vc: "mc_VectorClock y = mc_VectorClock x" "mc_UUID y = p" "stamp_of y = stamp_of x"
        using y(2) True by (auto simp: strip_def stamp_of_def)
      have "deliverable m y"
        using m ok(1,3) IH stamp True unfolding deliverable_def vc node_ok_def
        by (meson le_trans)
      then show False using quiet y(1) by blast
    qed
  next
    case False
    then show ?thesis
    proof (cases "mc_UUID x = p")
      case True
      then have "p = i" using False by simp
      have "length (by_sender p (take (Suc n) S)) \<le> length (by_sender p (take (Suc n) S @ drop (Suc n) S))"
        by (simp only: by_sender_simps length_append le_add1)
      then show ?thesis using m \<open>p = i\<close> by (simp add: node_ok_def)
    qed (use take IH in simp)
  qed
qed simp

lemma clock_counts_delivered:
  "DeliverMessages m = Some (m', ms) \<Longrightarrow>
     (\<forall>p. clock_of m p \<le> clock_of m' p) \<and> (\<forall>x \<in> set ms. stamp_of x (mc_UUID x) \<le> clock_of m' (mc_UUID x))"
proof (induction rule: DeliverMessages_induct)
  case (found m b x as bs m' ms)
  show ?case
  proof (cases b)
    case True
    then have del: "deliverable m x" using found by simp
    then have t: "clock_of (take_message m b x (as @ bs)) =
        (clock_of m)(mc_UUID x := Suc (clock_of m (mc_UUID x)))"
      and st: "stamp_of x (mc_UUID x) = Suc (clock_of m (mc_UUID x))"
      using True by (simp_all add: deliverable_def)
    have IH: "clock_of (take_message m b x (as @ bs)) p \<le> clock_of m' p" for p
      using found(3) by blast
    have "clock_of m p \<le> clock_of m' p" for p
      by (rule le_trans [OF _ IH]) (simp add: t)
    moreover have "stamp_of x (mc_UUID x) \<le> clock_of m' (mc_UUID x)"
      using IH [of "mc_UUID x"] t st by simp
    ultimately show ?thesis using found(3) True by auto
  next
    case False
    then show ?thesis using found by simp
  qed
qed simp

lemma arrived_stays:
  assumes "DeliverMessages m = Some (m', ms)" "arrived m x"
  shows "arrived m' x"
proof (cases "stamp_of x (mc_UUID x) \<le> clock_of m (mc_UUID x)")
  case True
  then show ?thesis
    using clock_counts_delivered [OF assms(1)] le_trans unfolding arrived_def by blast
next
  case False
  then obtain y where y: "y \<in> set (rm_holdBackQueue m)" "strip y = x"
    using assms(2) by (auto simp: arrived_def)
  obtain dups where d: "mset (rm_holdBackQueue m) = mset ms + mset dups + mset (rm_holdBackQueue m')"
    "\<forall>x \<in> set dups. duplicate m' x"
    using DeliverMessages_conserves [OF assms(1)] by blast
  then have "set (rm_holdBackQueue m) = set ms \<union> set dups \<union> set (rm_holdBackQueue m')"
    by (metis set_mset_mset set_mset_union)
  then consider "y \<in> set ms" | "y \<in> set dups" | "y \<in> set (rm_holdBackQueue m')"
    using y(1) by blast
  then show ?thesis
  proof cases
    case 1
    then show ?thesis using clock_counts_delivered [OF assms(1)] y(2) by (auto simp: arrived_def)
  next
    case 2
    then show ?thesis using d(2) y(2) by (auto simp: duplicate_def arrived_def)
  next
    case 3
    then show ?thesis using y(2) by (auto simp: arrived_def)
  qed
qed

lemma session_member:
  assumes "reach (session_init members port) (session_step members) s" "length (ss_sent s) < 2 ^ 32"
    "\<forall>j \<in> set members. length j = 36" "i \<in> set members"
  shows "sent_ok members (ss_sent s)" "node_ok members i (ss_sent s) (ss_node s i) (ss_log s i)"
  using multicast_session.reach_inv [OF assms(1)] assms(2-4) by (simp_all add: session_inv_def)

text \<open>Such a datagram never ends the process.\<close>

lemma fatal_sent:
  assumes "range_order ks (mc_VectorClock x)" "wf_mmessage x" "length (mc_UUID x) = 36"
    and "carried (mc_Message x) (encodeMulticastMessage ks x)"
  shows "\<not> fatal_datagram self (encodeMulticastMessage ks x)"
proof -
  have len: "length (encodeMulticastMessage ks x) \<le> 1024" using assms(4) by (simp add: carried_def)
  have dec: "decodeMulticastMessage (recv_buf (encodeMulticastMessage ks x)) [] = Inr (x\<lparr>mc_IP := []\<rparr>)"
    using len decode_encode_multicast [OF assms(2,1)] assms(3) by (simp add: canonical_mmessage_def)
  show ?thesis
    using dec assms(4) by (auto simp: fatal_datagram_def carried_def split: sum.splits)
qed

section \<open>A sample session\<close>

definition anna :: gostring where "anna = replicate 36 97"
definition bert :: gostring where "bert = replicate 36 98"

definition pair_members :: "gostring list" where
  "pair_members = [anna, bert]"

definition pair_start :: session where
  "pair_start = \<lparr>ss_node = (\<lambda>i. the (NewReliableMulticast i 0 pair_members)), ss_sent = [], ss_wire = [],
     ss_pending = (\<lambda>i. []), ss_log = (\<lambda>i. [])\<rparr>"

abbreviation pair_reach :: "session \<Rightarrow> bool" where
  "pair_reach \<equiv> reach (session_init pair_members 0) (session_step pair_members)"

lemma pair_facts:
  "anna \<noteq> bert" "\<forall>j \<in> set pair_members. length j = 36" "set pair_members = {anna, bert}"
  "anna \<in> set pair_members" "bert \<in> set pair_members" "length anna = 36" "length bert = 36"
  by (simp_all add: pair_members_def anna_def bert_def)

lemma pair_init: "session_init pair_members 0 pair_start"
  unfolding session_init_def
proof (intro conjI ballI)
  fix i assume "i \<in> set pair_members"
  then have "\<exists>m. NewReliableMulticast i 0 pair_members = Some m"
    using new_session_cases [of i 0 pair_members] pair_facts(2) by fastforce
  then show "NewReliableMulticast i 0 pair_members = Some (ss_node pair_start i)"
    by (auto simp: pair_start_def)
qed (simp_all add: pair_start_def)

lemma pair_new: "j \<in> set pair_members \<Longrightarrow> NewReliableMulticast j 0 pair_members = Some (ss_node pair_start j)"
  using pair_init by (simp add: session_init_def)

text \<open>One member multicasts a heartbeat message; its datagram arrives at the other one.\<close>

lemma pair_send:
  "\<exists>m' enc x. SendMessage (ss_node pair_start bert) [anna, bert] [4] = Some (m', enc, 0) \<and>
     x = sent_message (ss_node pair_start bert) [4] m' \<and> mc_UUID x = bert \<and> strip x = x \<and>
     range_order [anna, bert] (rm_vectorClock m') \<and> carried [4] enc"
proof -
  let ?m = "ss_node pair_start bert"
  have m: "rm_id ?m = bert" "rm_frame ?m = 0"
    "fmlookup (rm_vectorClock ?m) = (\<lambda>k. if k \<in> {anna, bert} then Some 0 else None)"
    using new_session_facts [OF pair_new [OF pair_facts(5)]] new_session_cases [of bert 0 pair_members]
      pair_new [OF pair_facts(5)] pair_facts(3) by simp_all
  let ?vc = "fmupd bert 1 (rm_vectorClock ?m)"
  have "fset (fmdom ?vc) = {anna, bert}"
    using m(3) by (auto simp: fmlookup_dom_iff split: if_splits)
  then have "fmdom ?vc = {|anna, bert|}" by (metis bot_fset.rep_eq finsert.rep_eq fset_inject)
  then have ord: "range_order [anna, bert] ?vc"
    using pair_facts(1) by (simp add: range_order_def)
  have "Decode [4] = Inr (typed_message Heartbeat)"
    by (simp add: Decode_def codec_simps message_types Let_def)
  moreover have "length (encodeMulticastMessage [anna, bert] y) = 132 + length (mc_Message y)" for y
    by (simp add: encodeMulticastMessage_def length_put_clocks put_clock_def)
  ultimately show ?thesis
    using m ord by (auto simp: SendMessage_def Let_def carried_def typed_message_def message_types sent_message_def strip_def)
qed

lemma pair_state:
  "\<exists>s x. pair_reach s \<and> ss_sent s = [x] \<and> mc_UUID x = bert \<and>
     rm_holdBackQueue (ss_node s anna) = [x] \<and> strip x = x"
proof -
  obtain m' enc x where send: "SendMessage (ss_node pair_start bert) [anna, bert] [4] = Some (m', enc, 0)"
    and x: "x = sent_message (ss_node pair_start bert) [4] m'" "mc_UUID x = bert" "strip x = x"
    and ok: "range_order [anna, bert] (rm_vectorClock m')" "carried [4] enc"
    using pair_send by blast
  have r0: "pair_reach pair_start" using pair_init by (rule reach_init)
  let ?s1 = "pair_start\<lparr>ss_node := (ss_node pair_start)(bert := m'),
      ss_sent := ss_sent pair_start @ [x], ss_wire := enc # ss_wire pair_start\<rparr>"
  have r1: "pair_reach ?s1"
    unfolding x(1) by (rule reach_step [OF r0]) (rule step_send [OF pair_facts(5) send ok])
  have len: "length (ss_sent ?s1) < 2 ^ 32" by (simp add: pair_start_def)
  have a1: "ss_node ?s1 anna = ss_node pair_start anna" using pair_facts(1) by simp
  have a: "rm_id (ss_node ?s1 anna) = anna" "rm_holdBackQueue (ss_node ?s1 anna) = []"
    unfolding a1 using new_session_facts(1,2) [OF pair_new [OF pair_facts(4)]] by simp_all
  have enc: "enc = encodeMulticastMessage [anna, bert] x"
    using sent_encoding [OF send] x(1) by simp
  have "wire_ok (ss_sent ?s1) (ss_wire ?s1)"
    using multicast_session.reach_inv [OF r1] len pair_facts(2) by (simp add: session_inv_def)
  then obtain y ks where y: "y \<in> set (ss_sent ?s1)" "enc = encodeMulticastMessage ks y"
    "range_order ks (mc_VectorClock y)" "wf_mmessage y" "carried (mc_Message y) enc" "length (mc_UUID y) = 36"
    by (auto simp: wire_ok_def)
  have yx: "y = x" using y(1) by (simp add: pair_start_def)
  have "\<not> fatal_datagram (rm_id (ss_node ?s1 anna)) enc"
    using fatal_sent [OF y(3,4,6)] y(2,5) by blast
  then obtain m'' effs where h: "handle_datagram (ss_node ?s1 anna) [] enc = Some (m'', effs)"
    using datagram_crash_iff [of "ss_node ?s1 anna" "[]" enc] a pair_facts(6) by fastforce
  have e: "m'' = ss_node ?s1 anna \<or> (\<exists>uid. m'' = RemoveDeadNode (ss_node ?s1 anna) uid)"
    "spawned effs = [x\<lparr>mc_IP := []\<rparr>]"
    using handle_sent_datagram [OF y(3,4,6)] y(2,5) h a(1) x(2) yx pair_facts(1) by fastforce+
  have x0: "x\<lparr>mc_IP := []\<rparr> = x" using x(3) by (simp add: strip_def)
  let ?s2 = "?s1\<lparr>ss_node := (ss_node ?s1)(anna := m''),
      ss_pending := (ss_pending ?s1)(anna := ss_pending ?s1 anna @ spawned effs),
      ss_log := (ss_log ?s1)(anna := ss_log ?s1 anna @ delivered_now effs)\<rparr>"
  have r2: "pair_reach ?s2"
    by (rule reach_step [OF r1], rule step_receive [OF pair_facts(4) _ h]) simp
  let ?s3 = "?s2\<lparr>ss_node := (ss_node ?s2)(anna := enqueue (ss_node ?s2 anna) x),
      ss_pending := (ss_pending ?s2)(anna := remove1 x (ss_pending ?s2 anna))\<rparr>"
  have r3: "pair_reach ?s3"
    by (rule reach_step [OF r2], rule step_enqueue [OF pair_facts(4)]) (use e x0 in simp)
  have "rm_holdBackQueue m'' = []" using e(1) a(2) by (auto simp: RemoveDeadNode_def)
  then have "ss_sent ?s3 = [x]" "rm_holdBackQueue (ss_node ?s3 anna) = [x]"
    by (simp_all add: enqueue_def pair_start_def)
  then show ?thesis using r3 x by blast
qed

section \<open>Properties\<close>

text \<open>C3: agreement. In every reachable state of a session in which messages are lost, repeated and
  reordered at will, the messages of a member p that another member delivered are, in order, the
  first messages that p sent, as many as the member's clock says for p.\<close>

theorem multicast_agreement:
  assumes "reach (session_init members port) (session_step members) s" "length (ss_sent s) < 2 ^ 32"
    and "\<forall>j \<in> set members. length j = 36" "i \<in> set members" "p \<noteq> i"
  shows "map strip (by_sender p (ss_log s i)) =
    take (clock_of (ss_node s i) p) (by_sender p (ss_sent s))"
  using session_member(2) [OF assms(1-4)] assms(5) by (simp add: node_ok_def)

theorem multicast_agreement_witness:
  "\<exists>s x. pair_reach s \<and> ss_sent s = [x] \<and> mc_UUID x = bert \<and>
     map strip (by_sender bert (ss_log s anna)) = take (clock_of (ss_node s anna) bert) [x]"
proof -
  obtain s x where s: "pair_reach s" "ss_sent s = [x]" "mc_UUID x = bert"
    "rm_holdBackQueue (ss_node s anna) = [x]"
    using pair_state by blast
  then obtain m' ms where "DeliverMessages (ss_node s anna) = Some (m', ms)"
    using deliver_total [of "ss_node s anna"] pair_facts(7) by fastforce
  then obtain t where t: "pair_reach t" "ss_sent t = [x]"
    using reach_step [OF s(1) step_deliver] s(2) pair_facts(4) by fastforce
  have "map strip (by_sender bert (ss_log t anna)) =
      take (clock_of (ss_node t anna) bert) (by_sender bert (ss_sent t))"
    by (rule multicast_agreement [OF t(1)]) (use t(2) pair_facts in \<open>simp_all\<close>)
  then show ?thesis using t s(3) by (intro exI [of _ t] exI [of _ x]) simp
qed

text \<open>C4: no message gets stuck. If every message sent by the other members has arrived at a member at
  least once, then a run of DeliverMessages there returns, leaves the hold-back queue empty, and
  the member has delivered all messages of every other member, in the order they were sent.\<close>

theorem multicast_all_delivered:
  assumes "reach (session_init members port) (session_step members) s" "length (ss_sent s) < 2 ^ 32"
    and "\<forall>j \<in> set members. length j = 36" "i \<in> set members"
    and "\<forall>x \<in> set (ss_sent s). mc_UUID x \<noteq> i \<longrightarrow> arrived (ss_node s i) x"
  shows "\<exists>m' ms. DeliverMessages (ss_node s i) = Some (m', ms) \<and> rm_holdBackQueue m' = [] \<and>
    (\<forall>p. p \<noteq> i \<longrightarrow> map strip (by_sender p (ss_log s i @ ms)) = by_sender p (ss_sent s))"
proof -
  note S = session_member(1) [OF assms(1-4)]
  note m = session_member(2) [OF assms(1-4)]
  have "well_named (rm_holdBackQueue (ss_node s i))"
    using m assms(3) sent_ok_nth(1) [OF S] by (fastforce simp: well_named_def node_ok_def)
  then obtain m' ms where run: "DeliverMessages (ss_node s i) = Some (m', ms)"
    using deliver_total by fastforce
  have m': "node_ok members i (ss_sent s) m' (ss_log s i @ ms)"
    using DeliverMessages_node_ok [OF run S] m by blast
  have quiet: "\<forall>x \<in> set (rm_holdBackQueue m'). \<not> deliverable m' x \<and> \<not> duplicate m' x"
    by (rule DeliverMessages_quiescent [OF run])
  have all: "length (by_sender p (ss_sent s)) \<le> clock_of m' p" for p
    using quiescent_all_delivered [OF S m' _ quiet order_refl] arrived_stays [OF run] assms(5) by auto
  have "rm_holdBackQueue m' = []"
  proof (rule ccontr)
    assume "rm_holdBackQueue m' \<noteq> []"
    then obtain y where y: "y \<in> set (rm_holdBackQueue m')" by (meson list.set_sel(1))
    then have sy: "strip y \<in> set (ss_sent s)" using m' by (simp add: node_ok_def)
    have k: "mc_UUID y \<in> set members" "stamp_of y (mc_UUID y) \<le> clock_of m' (mc_UUID y)"
      "0 < stamp_of y (mc_UUID y)"
      using sent_ok_nth [OF S sy] all [of "mc_UUID y"] by simp_all
    then have "duplicate m' y"
      using m' unfolding duplicate_def node_ok_def stamp_of_def
      by (metis map_get_None unat_0 less_irrefl)
    then show False using quiet y by blast
  qed
  moreover have "take (clock_of m' p) (by_sender p (ss_sent s)) = by_sender p (ss_sent s)" for p
    using all by simp
  ultimately show ?thesis using run m' by (auto simp: node_ok_def)
qed

theorem multicast_all_delivered_witness:
  "\<exists>s x m' ms. pair_reach s \<and> ss_sent s = [x] \<and>
     DeliverMessages (ss_node s anna) = Some (m', ms) \<and> rm_holdBackQueue m' = [] \<and>
     map strip (by_sender bert (ss_log s anna @ ms)) = [x]"
proof -
  obtain s x where s: "pair_reach s" "ss_sent s = [x]" "mc_UUID x = bert"
    "rm_holdBackQueue (ss_node s anna) = [x]" "strip x = x"
    using pair_state by blast
  have "\<forall>y \<in> set (ss_sent s). mc_UUID y \<noteq> anna \<longrightarrow> arrived (ss_node s anna) y"
    using s by (simp add: arrived_def)
  then obtain m' ms where "DeliverMessages (ss_node s anna) = Some (m', ms)" "rm_holdBackQueue m' = []"
    "\<forall>p. p \<noteq> anna \<longrightarrow> map strip (by_sender p (ss_log s anna @ ms)) = by_sender p (ss_sent s)"
    using multicast_all_delivered [OF s(1) _ pair_facts(2,4)] s(2) by auto
  then show ?thesis using s(1-3) pair_facts(1)
    by (intro exI [of _ s] exI [of _ x] exI [of _ m'] exI [of _ ms]) simp
qed

end
