(* ===== verification/CausalHistory.thy ===== *)
theory CausalHistory
  imports CausalNetwork
begin

text \<open>
  What the vector clocks of a session are for: a message is delivered after everything that its sender
  knew of when it was sent. Every member's part of a session is a run of its critical sections, so
  the causal order of \<open>CausalDelivery\<close> holds of its log, and what a clock counts was delivered.
\<close>

section \<open>Every member's part of a session\<close>

text \<open>Each member's object is the result of a run of its critical sections that delivered its log.\<close>

definition session_runs :: "gostring list \<Rightarrow> u32 \<Rightarrow> session \<Rightarrow> bool" where
  "session_runs members port s \<longleftrightarrow>
     (\<forall>i \<in> set members. \<exists>m0. NewReliableMulticast i port members = Some m0 \<and> mc_run m0 (ss_log s i) (ss_node s i))"

definition session_bound :: "gostring list \<Rightarrow> session \<Rightarrow> bool" where
  "session_bound members s \<longleftrightarrow> (\<forall>i \<in> set members. length i = 36) \<and> length (ss_sent s) < 2 ^ 32"

lemma session_bound_before: "session_step members s t \<Longrightarrow> session_bound members t \<Longrightarrow> session_bound members s"
  by (induction rule: session_step.induct) (auto simp: session_bound_def)

lemma runs_update:
  assumes "session_runs members port s" "j \<in> set members" "mc_run (ss_node s j) ms m'"
    and "ss_node t = (ss_node s)(j := m')" "ss_log t = (ss_log s)(j := ss_log s j @ ms)"
  shows "session_runs members port t"
  unfolding session_runs_def
proof
  fix i assume i: "i \<in> set members"
  obtain m0 where m0: "NewReliableMulticast i port members = Some m0" "mc_run m0 (ss_log s i) (ss_node s i)"
    using assms(1) i unfolding session_runs_def by blast
  then have "mc_run m0 (ss_log t i) (ss_node t i)"
    using mc_run_trans [OF assms(3)] assms(4,5) by (cases "i = j") simp_all
  then show "\<exists>m0. NewReliableMulticast i port members = Some m0 \<and> mc_run m0 (ss_log t i) (ss_node t i)"
    using m0(1) by blast
qed

lemma handle_datagram_run:
  assumes "handle_datagram m ip datagram = Some (m', effs)" shows "mc_run m (delivered_now effs) m'"
proof -
  obtain x where "handle_message m x = Some (m', effs)"
    using assms unfolding handle_datagram_def by (auto split: sum.splits io_error.splits)
  from conjunct1 [OF handle_message_run [OF this]] show ?thesis .
qed

lemma mc_run_event: "mc_run m [] (apply_mc m e)"
  using mc_run_one [OF sec_local] .

lemma session_step_runs:
  assumes "session_step members s t" "session_inv members s" "session_bound members s" "session_runs members port s"
  shows "session_runs members port t"
  using assms
proof (induction rule: session_step.induct)
  case (step_send i s ks payload m' enc frame)
  have "mc_run (ss_node s i) [] m'"
    using mc_run_event [of "ss_node s i" "EvSend ks payload"] step_send.hyps(2) by simp
  from runs_update [OF step_send.prems(3) step_send.hyps(1) this] show ?case by simp
next
  case (step_receive j d s ip m' effs)
  from runs_update [OF step_receive.prems(3) step_receive.hyps(1) handle_datagram_run [OF step_receive.hyps(3)]]
  show ?case by simp
next
  case (step_enqueue j x s)
  have "node_ok members j (ss_sent s) (ss_node s j) (ss_log s j)" "pending_ok j (ss_sent s) (ss_pending s j)"
    using step_enqueue.hyps(1) step_enqueue.prems(1,2) by (simp_all add: session_inv_def session_bound_def)
  then have "mc_UUID x \<noteq> rm_id (ss_node s j)"
    using step_enqueue.hyps(2) by (simp add: pending_ok_def node_ok_def)
  from runs_update [OF step_enqueue.prems(3) step_enqueue.hyps(1) mc_run_one [OF sec_enqueue [OF this]]]
  show ?case by simp
next
  case (step_deliver j s m' ms)
  from runs_update [OF step_deliver.prems(3) step_deliver.hyps(1) mc_run_one [OF sec_deliver [OF step_deliver.hyps(2)]]]
  show ?case by simp
next
  case (step_ack j s uuid frame)
  have "mc_run (ss_node s j) [] (OnAck (ss_node s j) uuid frame)"
    using mc_run_event [of "ss_node s j" "EvAck uuid frame"] by simp
  from runs_update [OF step_ack.prems(3) step_ack.hyps(1) this] show ?case by simp
next
  case (step_dead j s uid)
  have "mc_run (ss_node s j) [] (RemoveDeadNode (ss_node s j) uid)"
    using mc_run_event [of "ss_node s j" "EvDead uid"] by simp
  from runs_update [OF step_dead.prems(3) step_dead.hyps(1) this] show ?case by simp
qed

interpretation running_session: invariant_system "session_init members port" "session_step members"
    "\<lambda>s. session_inv members s \<and> (session_bound members s \<longrightarrow> session_runs members port s)" for members port
proof
  fix s assume "session_init members port s"
  then show "session_inv members s \<and> (session_bound members s \<longrightarrow> session_runs members port s)"
    using multicast_session.inv_init by (auto simp: session_runs_def session_init_def intro: run_start)
next
  fix s t
  assume step: "session_step members s t" and inv: "session_inv members s \<and> (session_bound members s \<longrightarrow> session_runs members port s)"
  then show "session_inv members t \<and> (session_bound members t \<longrightarrow> session_runs members port t)"
    using session_step_inv session_step_runs session_bound_before by blast
qed

section \<open>What a message knows\<close>

lemma sent_ok_at:
  assumes "sent_ok members S" "n < length S"
  shows "mc_UUID (S ! n) \<in> set members"
    "stamp_of (S ! n) (mc_UUID (S ! n)) = Suc (length (by_sender (mc_UUID (S ! n)) (take n S)))"
  using assms unfolding sent_ok_def by auto

lemma sent_ok_front: assumes "sent_ok members (S @ [x])" shows "sent_ok members S"
  unfolding sent_ok_def
proof (intro allI impI)
  fix n assume n: "n < length S"
  then have "(S @ [x]) ! n = S ! n" "take n (S @ [x]) = take n S" "n < length (S @ [x])"
    by (simp_all add: nth_append)
  then show "mc_UUID (S ! n) \<in> set members \<and> mc_IP (S ! n) = [] \<and>
        (\<forall>p \<in> set members. fmlookup (mc_VectorClock (S ! n)) p \<noteq> None \<and>
          (if p = mc_UUID (S ! n) then stamp_of (S ! n) p = Suc (length (by_sender p (take n S)))
           else stamp_of (S ! n) p \<le> length (by_sender p (take n S))))"
    using assms [unfolded sent_ok_def, rule_format, of n] by metis
qed

lemma position_stamp:
  "sent_ok members S \<Longrightarrow> k < length (by_sender p S) \<Longrightarrow> stamp_of (by_sender p S ! k) p = Suc k"
proof (induction S rule: rev_induct)
  case (snoc x S)
  show ?case
  proof (cases "k < length (by_sender p S)")
    case True
    then show ?thesis using snoc.IH sent_ok_front [OF snoc.prems(1)] by (simp add: nth_append)
  next
    case False
    then have x: "mc_UUID x = p" "k = length (by_sender p S)" using snoc.prems(2) by (auto split: if_splits)
    then show ?thesis using sent_ok_at(2) [OF snoc.prems(1), of "length S"] by simp
  qed
qed simp

text \<open>A member has delivered exactly the messages of another that its clock counts.\<close>

lemma delivered_iff:
  assumes "sent_ok members S" "node_ok members i S m log" "x \<in> set S" "mc_UUID x \<noteq> i"
  shows "x \<in> strip ` set log \<longleftrightarrow> stamp_of x (mc_UUID x) \<le> clock_of m (mc_UUID x)"
proof -
  let ?p = "mc_UUID x"
  have log: "map strip (by_sender ?p log) = take (clock_of m ?p) (by_sender ?p S)"
    using assms(2,4) by (simp add: node_ok_def)
  have mem: "x \<in> strip ` set log \<longleftrightarrow> x \<in> set (map strip (by_sender ?p log))"
    by (auto simp: by_sender_def)
  have x: "stamp_of x ?p - 1 < length (by_sender ?p S)" "by_sender ?p S ! (stamp_of x ?p - 1) = x"
    "0 < stamp_of x ?p"
    using sent_ok_nth [OF assms(1,3)] by simp_all
  show ?thesis
  proof
    assume "x \<in> strip ` set log"
    then obtain k where k: "k < clock_of m ?p" "k < length (by_sender ?p S)" "by_sender ?p S ! k = x"
      unfolding mem log by (auto simp: in_set_conv_nth)
    then show "stamp_of x ?p \<le> clock_of m ?p" using position_stamp [OF assms(1) k(2)] by simp
  next
    assume "stamp_of x ?p \<le> clock_of m ?p"
    then show "x \<in> strip ` set log"
      unfolding mem log using x by (auto simp: in_set_conv_nth intro!: exI [of _ "stamp_of x ?p - 1"])
  qed
qed


lemma session_facts:
  assumes "reach (session_init members port) (session_step members) s" "session_bound members s" "i \<in> set members"
  shows "sent_ok members (ss_sent s)" "node_ok members i (ss_sent s) (ss_node s i) (ss_log s i)"
    "\<exists>m0. NewReliableMulticast i port members = Some m0 \<and> mc_run m0 (ss_log s i) (ss_node s i)"
  using running_session.reach_inv [OF assms(1)] assms(2,3)
  by (simp_all add: session_inv_def session_bound_def session_runs_def)

text \<open>A message that knows of another one is delivered after it.\<close>

lemma known_comes_first:
  assumes "reach (session_init members port) (session_step members) s" "session_bound members s" "i \<in> set members"
    and "x \<in> set (ss_sent s)" "mc_UUID x \<noteq> i" "x \<noteq> strip y'"
    and "stamp_of x (mc_UUID x) \<le> stamp_of y' (mc_UUID x)" "ss_log s i = as @ y' # bs"
  shows "x \<in> strip ` set as"
proof -
  let ?q = "mc_UUID x"
  note S = session_facts(1) [OF assms(1-3)] and m = session_facts(2) [OF assms(1-3)]
  obtain m0 where m0: "NewReliableMulticast i port members = Some m0" "mc_run m0 (ss_log s i) (ss_node s i)"
    using session_facts(3) [OF assms(1-3)] by blast
  note new = new_session_emits [OF m0]
  have q: "?q \<in> set members" by (rule sent_ok_nth(1) [OF S assms(4)])
  have "stamp_of y' ?q \<le> clock_of (ss_node s i) ?q"
    using causal.emits_below [OF new(4,2)] new(1,3) q assms(5,8) by auto
  then have "x \<in> strip ` set (ss_log s i)"
    using delivered_iff [OF S m assms(4,5)] assms(7) by simp
  then obtain x' where x': "x' \<in> set (ss_log s i)" "x = strip x'" by blast
  have "x' \<notin> set bs"
  proof
    assume "x' \<in> set bs"
    then have "mc_known m0 (mc_UUID x') \<longrightarrow> stamp_of y' (mc_UUID x') < stamp_of x' (mc_UUID x')"
      using causal.emits_causal [OF new(4,2)] assms(8) by (auto simp: sorted_wrt_append)
    then show False using new(3) [OF q] x'(2) assms(7) by simp
  qed
  then show ?thesis using x' assms(6,8) by auto
qed

text \<open>What a member has sent or delivered is known to the next message it sends.\<close>

lemma sent_knows:
  assumes "reach (session_init members port) (session_step members) s" "session_bound members s" "p \<in> set members"
    and "SendMessage (ss_node s p) ks payload = Some (m', enc, frame)"
    and "x \<in> set (ss_sent s)" "mc_UUID x = p \<or> x \<in> strip ` set (ss_log s p)" "Suc (length (ss_sent s)) < 2 ^ 32"
  shows "stamp_of x (mc_UUID x) \<le> stamp_of (sent_message (ss_node s p) payload m') (mc_UUID x) \<and>
    x \<noteq> sent_message (ss_node s p) payload m'"
proof -
  note S = session_facts(1) [OF assms(1-3)] and m = session_facts(2) [OF assms(1-3)]
  have own: "rm_id (ss_node s p) = p" "clock_of (ss_node s p) p = length (by_sender p (ss_sent s))"
    using m by (simp_all add: node_ok_def)
  have count: "stamp_of x (mc_UUID x) \<le> clock_of (ss_node s p) (mc_UUID x)"
    using sent_ok_nth(3) [OF S assms(5)] own(2) delivered_iff [OF S m assms(5)] assms(6)
    by (cases "mc_UUID x = p") auto
  have "clock_of (ss_node s p) (rm_id (ss_node s p)) < 2 ^ 32 - 1"
    using own assms(7) length_by_sender [of p "ss_sent s"] by simp
  then have clock: "clock_of m' = (clock_of (ss_node s p))(p := Suc (clock_of (ss_node s p) p))"
    using SendMessage_facts(3) [OF assms(4)] own(1) by simp
  have y: "stamp_of (sent_message (ss_node s p) payload m') = clock_of m'" "mc_UUID (sent_message (ss_node s p) payload m') = p"
    using own(1) by (simp_all add: sent_message_def stamp_of_def clock_of_def fun_eq_iff)
  have "x \<noteq> sent_message (ss_node s p) payload m'"
    using count clock y by (cases "mc_UUID x = p") auto
  then show ?thesis using count clock y(1) by (cases "mc_UUID x = p") auto
qed

lemma step_sent_grows: "session_step members s t \<Longrightarrow> set (ss_sent s) \<subseteq> set (ss_sent t)"
  by (induction rule: session_step.induct) auto

lemma sent_grows: "reach (\<lambda>u. u = s) (session_step members) t \<Longrightarrow> set (ss_sent s) \<subseteq> set (ss_sent t)"
  by (induction rule: reach.induct) (use step_sent_grows in blast)+


section \<open>Messages that arrive\<close>

lemma queue_named:
  assumes "reach (session_init members port) (session_step members) s" "session_bound members s" "j \<in> set members"
  shows "well_named (rm_holdBackQueue (ss_node s j))" "rm_id (ss_node s j) = j" "length j = 36"
proof -
  note S = session_facts(1) [OF assms] and m = session_facts(2) [OF assms]
  have len: "k \<in> set members \<Longrightarrow> length k = 36" for k
    using assms(2) by (simp add: session_bound_def)
  show "length j = 36" by (rule len [OF assms(3)])
  show "rm_id (ss_node s j) = j" using m by (simp add: node_ok_def)
  show "well_named (rm_holdBackQueue (ss_node s j))"
    unfolding well_named_def
  proof
    fix x assume "x \<in> set (rm_holdBackQueue (ss_node s j))"
    then have "strip x \<in> set (ss_sent s)" using m by (simp add: node_ok_def)
    then show "4 \<le> length (mc_UUID x)" using sent_ok_nth(1) [OF S] len by fastforce
  qed
qed

text \<open>A datagram on the network can arrive at any other member and enter its queue.\<close>

lemma message_arrives:
  assumes "reach (session_init members port) (session_step members) s" "session_bound members s" "j \<in> set members"
    and "d \<in> set (ss_wire s)" "wire_ok [x] [d]" "strip x = x" "mc_UUID x \<noteq> j"
  shows "\<exists>t. reach (\<lambda>u. u = s) (session_step members) t \<and> ss_sent t = ss_sent s \<and> ss_wire t = ss_wire s \<and>
    rm_holdBackQueue (ss_node t j) = rm_holdBackQueue (ss_node s j) @ [x] \<and> ss_log t = ss_log s"
proof -
  note q = queue_named [OF assms(1-3)]
  obtain ks where x: "d = encodeMulticastMessage ks x" "range_order ks (mc_VectorClock x)" "wf_mmessage x"
    "carried (mc_Message x) d" "length (mc_UUID x) = 36"
    using assms(5) by (auto simp: wire_ok_def)
  have "\<not> fatal_datagram j d" using fatal_sent [OF x(2,3,5)] x(1,4) by simp
  then obtain m' effs where h: "handle_datagram (ss_node s j) [] d = Some (m', effs)"
    using datagram_crash_iff [OF q(1), of "[]" d] q(2,3) by fastforce
  have e: "delivered_now effs = []" "spawned effs = [x]" "rm_holdBackQueue m' = rm_holdBackQueue (ss_node s j)"
    using handle_sent_datagram [OF x(2,3,5) _ h [unfolded x(1)]] x(1,4) q(2) assms(6,7)
    by (auto simp: strip_def RemoveDeadNode_def)
  let ?s1 = "s\<lparr>ss_node := (ss_node s)(j := m'), ss_pending := (ss_pending s)(j := ss_pending s j @ [x]),
      ss_log := (ss_log s)(j := ss_log s j @ [])\<rparr>"
  let ?s2 = "?s1\<lparr>ss_node := (ss_node ?s1)(j := enqueue (ss_node ?s1 j) x),
      ss_pending := (ss_pending ?s1)(j := remove1 x (ss_pending ?s1 j))\<rparr>"
  have "session_step members s ?s1" using step_receive [OF assms(3,4) h] e by simp
  moreover have "session_step members ?s1 ?s2" by (rule step_enqueue [OF assms(3)]) simp
  ultimately have "reach (\<lambda>u. u = s) (session_step members) ?s2"
    by (blast intro: reach_step reach_init)
  then show ?thesis
    by (intro exI [of _ ?s2]) (use e in \<open>simp add: enqueue_def\<close>)
qed

text \<open>When everything has arrived, one run of the delivery loop delivers all of it.\<close>

lemma arrivals_delivered:
  assumes "reach (session_init members port) (session_step members) s" "session_bound members s" "i \<in> set members"
    and "\<forall>x \<in> set (ss_sent s). mc_UUID x \<noteq> i \<longrightarrow> arrived (ss_node s i) x"
  shows "\<exists>m' ms. DeliverMessages (ss_node s i) = Some (m', ms) \<and>
    (\<forall>p. p \<noteq> i \<longrightarrow> map strip (by_sender p (ss_log s i @ ms)) = by_sender p (ss_sent s))"
proof -
  note S = session_facts(1) [OF assms(1-3)] and m = session_facts(2) [OF assms(1-3)]
  obtain m' ms where run: "DeliverMessages (ss_node s i) = Some (m', ms)"
    using deliver_total [OF queue_named(1) [OF assms(1-3)]] by fastforce
  have m': "node_ok members i (ss_sent s) m' (ss_log s i @ ms)"
    using DeliverMessages_node_ok [OF run S] m by blast
  have "length (by_sender p (ss_sent s)) \<le> clock_of m' p" for p
    using quiescent_all_delivered [OF S m' _ DeliverMessages_quiescent [OF run] order_refl]
      arrived_stays [OF run] assms(4) by auto
  then have "map strip (by_sender p (ss_log s i @ ms)) = by_sender p (ss_sent s)" if "p \<noteq> i" for p
    using m' that by (simp add: node_ok_def)
  then show ?thesis using run by blast
qed

section \<open>Two members\<close>

lemma pair_sends:
  assumes "pair_reach s" "session_bound pair_members s" "i \<in> set pair_members"
    and "Decode payload = Inr d" "m_Type d \<noteq> NewNode" "length payload \<le> 800"
  shows "\<exists>m' enc frame. SendMessage (ss_node s i) [anna, bert] payload = Some (m', enc, frame) \<and>
    range_order [anna, bert] (rm_vectorClock m') \<and> carried payload enc \<and>
    wire_ok [sent_message (ss_node s i) payload m'] [enc] \<and> mc_UUID (sent_message (ss_node s i) payload m') = i"
proof -
  have m: "rm_id (ss_node s i) = i" "\<And>p. fmlookup (rm_vectorClock (ss_node s i)) p \<noteq> None \<longleftrightarrow> p \<in> {anna, bert}"
    using session_facts(2) [OF assms(1-3)] pair_facts(3) by (auto simp: node_ok_def)
  obtain c where c: "fmlookup (rm_vectorClock (ss_node s i)) i = Some c"
    using m(2) [of i] assms(3) pair_facts(3) by auto
  let ?vc = "fmupd i (c + 1) (rm_vectorClock (ss_node s i))"
  have dom: "fmlookup ?vc p \<noteq> None \<longleftrightarrow> p \<in> {anna, bert}" for p
    using m(2) [of p] c assms(3) pair_facts(3) by auto
  have "p \<in> fset (fmdom ?vc) \<longleftrightarrow> p \<in> {anna, bert}" for p
    using dom [of p] fmdom_notI [of ?vc p] fmdom_notD [of p ?vc] by metis
  then have "fset (fmdom ?vc) = {anna, bert}" by blast
  then have "fmdom ?vc = {|anna, bert|}" by (metis bot_fset.rep_eq finsert.rep_eq fset_inject)
  then have ord: "range_order [anna, bert] ?vc"
    using pair_facts(1) by (simp add: range_order_def)
  have len: "length (encodeMulticastMessage [anna, bert] y) = 132 + length (mc_Message y)" for y
    by (simp add: encodeMulticastMessage_def length_put_clocks put_clock_def)
  obtain m' enc frame where send: "SendMessage (ss_node s i) [anna, bert] payload = Some (m', enc, frame)"
    "rm_vectorClock m' = ?vc" "length enc \<le> 1024"
    using m(1) c len assms(6) by (auto simp: SendMessage_def Let_def)
  have car: "carried payload enc" using send(3) assms(4,5) by (simp add: carried_def)
  have "wire_ok [sent_message (ss_node s i) payload m'] [enc]"
    by (rule send_wire [OF send(1) _ car])
      (use ord send(2) dom m(1) assms(2,3) pair_facts(6,7) in \<open>auto simp: session_bound_def\<close>)
  moreover have "mc_UUID (sent_message (ss_node s i) payload m') = i" using m(1) by (simp add: sent_message_def)
  ultimately show ?thesis
    using send ord car by (intro exI [of _ m'] exI [of _ enc] exI [of _ frame]) simp
qed

text \<open>One member sends twice, and both messages arrive at the other one in the wrong order.\<close>

lemma pair_conversation:
  "\<exists>s t m' enc frame x as y' bs. pair_reach s \<and> session_bound pair_members s \<and> ss_sent s = [x] \<and> mc_UUID x = bert \<and>
     SendMessage (ss_node s bert) [anna, bert] [4] = Some (m', enc, frame) \<and>
     reach (\<lambda>u. u = s) (session_step pair_members) t \<and> session_bound pair_members t \<and>
     ss_log t anna = as @ y' # bs \<and> strip y' = sent_message (ss_node s bert) [4] m'"
proof -
  have dec: "Decode [4] = Inr (typed_message Heartbeat)" "m_Type (typed_message Heartbeat) \<noteq> NewNode"
    by (simp_all add: Decode_def codec_simps message_types Let_def typed_message_def)
  have bound: "session_bound pair_members u \<longleftrightarrow> length (ss_sent u) < 2 ^ 32" for u
    using pair_facts(2) by (simp add: session_bound_def)
  have strip: "strip (sent_message m d m') = sent_message m d m'" for m d m'
    by (simp add: strip_def sent_message_def)
  have r0: "pair_reach pair_start" using pair_init by (rule reach_init)
  obtain m1 enc1 f1 where 1: "SendMessage (ss_node pair_start bert) [anna, bert] [4] = Some (m1, enc1, f1)"
    "range_order [anna, bert] (rm_vectorClock m1)" "carried [4] enc1"
    "wire_ok [sent_message (ss_node pair_start bert) [4] m1] [enc1]"
    "mc_UUID (sent_message (ss_node pair_start bert) [4] m1) = bert"
    using pair_sends [OF r0 _ pair_facts(5) dec] bound by (auto simp: pair_start_def)
  let ?x = "sent_message (ss_node pair_start bert) [4] m1"
  let ?s = "pair_start\<lparr>ss_node := (ss_node pair_start)(bert := m1),
      ss_sent := ss_sent pair_start @ [?x], ss_wire := enc1 # ss_wire pair_start\<rparr>"
  have s: "pair_reach ?s" "ss_sent ?s = [?x]"
    using reach_step [OF r0 step_send [OF pair_facts(5) 1(1-3)]] by (simp_all add: pair_start_def)
  have bs: "session_bound pair_members ?s" using bound s(2) by simp
  obtain m2 enc2 f2 where 2: "SendMessage (ss_node ?s bert) [anna, bert] [4] = Some (m2, enc2, f2)"
    "range_order [anna, bert] (rm_vectorClock m2)" "carried [4] enc2"
    "wire_ok [sent_message (ss_node ?s bert) [4] m2] [enc2]" "mc_UUID (sent_message (ss_node ?s bert) [4] m2) = bert"
    using pair_sends [OF s(1) bs pair_facts(5) dec] by auto
  let ?y = "sent_message (ss_node ?s bert) [4] m2"
  let ?u = "?s\<lparr>ss_node := (ss_node ?s)(bert := m2), ss_sent := ss_sent ?s @ [?y], ss_wire := enc2 # ss_wire ?s\<rparr>"
  have u: "reach (\<lambda>v. v = ?s) (session_step pair_members) ?u"
    by (rule reach_one) (rule step_send [OF pair_facts(5) 2(1-3)])
  have bu: "session_bound pair_members ?u" using bound by (simp add: pair_start_def)
  have wire: "enc1 \<in> set (ss_wire ?u)" "enc2 \<in> set (ss_wire ?u)" by simp_all
  have ba: "bert \<noteq> anna" using pair_facts(1) by simp
  obtain v where v: "reach (\<lambda>w. w = ?u) (session_step pair_members) v" "ss_sent v = ss_sent ?u" "ss_wire v = ss_wire ?u"
    "rm_holdBackQueue (ss_node v anna) = rm_holdBackQueue (ss_node ?u anna) @ [?y]"
    using message_arrives [OF reach_from [OF u s(1)] bu pair_facts(4) wire(2) 2(4) strip] 2(5) ba by auto
  have rv: "pair_reach v" "session_bound pair_members v"
    using reach_from [OF v(1) reach_from [OF u s(1)]] bu bound v(2) by simp_all
  have wire_v: "enc1 \<in> set (ss_wire v)" unfolding v(3) by (rule wire(1))
  obtain w where w: "reach (\<lambda>z. z = v) (session_step pair_members) w" "ss_sent w = ss_sent v"
    "rm_holdBackQueue (ss_node w anna) = rm_holdBackQueue (ss_node v anna) @ [?x]"
    using message_arrives [OF rv pair_facts(4) wire_v 1(4) strip] 1(5) ba by auto
  have rw: "pair_reach w" "session_bound pair_members w"
    using reach_from [OF w(1) rv(1)] rv(2) bound w(2) by simp_all
  have sent: "ss_sent w = [?x, ?y]" using w(2) v(2) s(2) by simp
  have "\<forall>z \<in> set (ss_sent w). mc_UUID z \<noteq> anna \<longrightarrow> arrived (ss_node w anna) z"
    unfolding sent using w(3) v(4) strip by (auto simp: arrived_def image_iff)
  then obtain m' ms where d: "DeliverMessages (ss_node w anna) = Some (m', ms)"
    "map strip (by_sender bert (ss_log w anna @ ms)) = by_sender bert (ss_sent w)"
    using arrivals_delivered [OF rw pair_facts(4)] ba by blast
  let ?t = "w\<lparr>ss_node := (ss_node w)(anna := m'), ss_log := (ss_log w)(anna := ss_log w anna @ ms)\<rparr>"
  have t: "reach (\<lambda>z. z = w) (session_step pair_members) ?t"
    by (rule reach_one) (rule step_deliver [OF pair_facts(4) d(1)])
  have "?y \<in> set (map strip (by_sender bert (ss_log w anna @ ms)))"
    unfolding d(2) sent using 1(5) 2(5) by simp
  then obtain y' where y: "?y = strip y'" "y' \<in> set (by_sender bert (ss_log w anna @ ms))"
    unfolding set_map by (rule imageE)
  then have "y' \<in> set (ss_log ?t anna)" by (auto simp: by_sender_def)
  with y(1) obtain as bs where y': "ss_log ?t anna = as @ y' # bs" "strip y' = ?y" by (metis split_list)
  have "reach (\<lambda>z. z = ?s) (session_step pair_members) ?t"
    by (rule reach_from [OF t reach_from [OF w(1) reach_from [OF v(1) u]]])
  moreover have "session_bound pair_members ?t" using rw(2) bound by simp
  ultimately show ?thesis using s bs 1(5) 2(1) y' by blast
qed


section \<open>Properties\<close>

text \<open>C23: a reply is never shown before what it replies to. Let a member have sent or delivered the message x
  when it sends y. In every later state of the session, with any loss, repetition and reordering, a member
  that has delivered y, other than the sender of x, delivered x before it.\<close>

theorem replies_follow:
  assumes "reach (session_init members port) (session_step members) s" "Suc (length (ss_sent s)) < 2 ^ 32"
    and "session_bound members t" "p \<in> set members" "i \<in> set members" "mc_UUID x \<noteq> i"
    and "x \<in> set (ss_sent s)" "mc_UUID x = p \<or> x \<in> strip ` set (ss_log s p)"
    and "SendMessage (ss_node s p) ks payload = Some (m', enc, frame)"
    and "reach (\<lambda>u. u = s) (session_step members) t"
    and "ss_log t i = as @ y' # bs" "strip y' = sent_message (ss_node s p) payload m'"
  shows "x \<in> strip ` set as"
proof -
  have bound: "session_bound members s"
    using assms(2,3) by (simp add: session_bound_def)
  note k = sent_knows [OF assms(1) bound assms(4,9,7,8,2)]
  have "x \<in> set (ss_sent t)" using sent_grows [OF assms(10)] assms(7) by blast
  moreover have "stamp_of x (mc_UUID x) \<le> stamp_of y' (mc_UUID x)"
    using k assms(12) by (metis strip_simps(3))
  ultimately show ?thesis
    using known_comes_first [OF reach_from [OF assms(10,1)] assms(3,5) _ assms(6) _ _ assms(11)] k assms(12) by simp
qed

theorem replies_follow_witness:
  "\<exists>s t x as y' bs. pair_reach s \<and> ss_sent s = [x] \<and> reach (\<lambda>u. u = s) (session_step pair_members) t \<and>
     ss_log t anna = as @ y' # bs \<and> mc_UUID y' = bert \<and> x \<in> strip ` set as"
proof -
  obtain s t m' enc frame x as y' bs where w: "pair_reach s" "session_bound pair_members s" "ss_sent s = [x]" "mc_UUID x = bert"
    "SendMessage (ss_node s bert) [anna, bert] [4] = Some (m', enc, frame)"
    "reach (\<lambda>u. u = s) (session_step pair_members) t" "session_bound pair_members t"
    "ss_log t anna = as @ y' # bs" "strip y' = sent_message (ss_node s bert) [4] m'"
    using pair_conversation by blast
  have "x \<in> strip ` set as"
    by (rule replies_follow [OF w(1) _ w(7) pair_facts(5,4) _ _ _ w(5,6,8,9)]) (use w(3,4) pair_facts(1) in simp_all)
  moreover have "mc_UUID (sent_message (ss_node s bert) [4] m') = bert"
    using queue_named(2) [OF w(1,2) pair_facts(5)] by (simp add: sent_message_def)
  then have "mc_UUID y' = bert" using w(9) by (metis strip_simps(1))
  ultimately show ?thesis using w by blast
qed

end
