(* ===== verification/StateMachine.thy ===== *)
theory StateMachine
  imports UnicastCodec
begin

text \<open>
  The server's state machine, \<^verbatim>\<open>server/state_machine.go\<close>: the states, the table of transitions
  with the server method each one runs, and \<open>ChangeTo\<close>.
\<close>

section \<open>States and actions\<close>

datatype State = START | INIT | LEADER | FOLLOWER | BECOME_LEADER | BECOME_FOLLOWER | ELECTION

instantiation State :: enum
begin

definition enum_State :: "State list" where
  "enum_State = [START, INIT, LEADER, FOLLOWER, BECOME_LEADER, BECOME_FOLLOWER, ELECTION]"

definition enum_all_State :: "(State \<Rightarrow> bool) \<Rightarrow> bool" where
  "enum_all_State P \<longleftrightarrow> list_all P [START, INIT, LEADER, FOLLOWER, BECOME_LEADER, BECOME_FOLLOWER, ELECTION]"

definition enum_ex_State :: "(State \<Rightarrow> bool) \<Rightarrow> bool" where
  "enum_ex_State P \<longleftrightarrow> list_ex P [START, INIT, LEADER, FOLLOWER, BECOME_LEADER, BECOME_FOLLOWER, ELECTION]"

instance
proof
  show univ: "(UNIV :: State set) = set enum_class.enum"
    unfolding enum_State_def by (auto intro: State.exhaust)
  show "distinct (enum_class.enum :: State list)" by (simp add: enum_State_def)
  fix P :: "State \<Rightarrow> bool"
  have all: "(\<forall>s. P s) = (\<forall>s \<in> set enum_class.enum. P s)" "(\<exists>s. P s) = (\<exists>s \<in> set enum_class.enum. P s)"
    by (simp_all flip: univ)
  show "enum_class.enum_all P = Ball UNIV P" "enum_class.enum_ex P = Bex UNIV P"
    unfolding enum_all_State_def enum_ex_State_def all [folded ball_UNIV bex_UNIV]
    by (simp_all add: enum_State_def)
qed

end

text \<open>The methods of \<open>ServerInterface\<close>, as names for what \<open>ChangeTo\<close> starts.\<close>

datatype Action = StartToInit | InitToBecomeFollower | InitToLeader | BecomeFollowerToInit
  | BecomeFollowerToFollower | LeaderToInit | FollowerToElection | FollowerToFollower
  | BecomeLeaderToLeader | ElectionToFollower | ElectionToBecomeLeader | ElectionToElection

text \<open>A broadcast message, and the argument of an action (\<open>None\<close> for a nil pointer).\<close>

record BMessage =
  bc_UUID :: gostring
  bc_IP :: gostring

record StateMachineMessage =
  smm_Broadcast :: "BMessage option"
  smm_Unicast :: "UMessage option"

text \<open>The table that \<open>NewStateMachine\<close> fills in.\<close>

definition transitions :: "State \<Rightarrow> (State \<times> Action) list" where
  "transitions s = (case s of
     START \<Rightarrow> [(INIT, StartToInit)]
   | INIT \<Rightarrow> [(BECOME_FOLLOWER, InitToBecomeFollower), (LEADER, InitToLeader)]
   | BECOME_FOLLOWER \<Rightarrow> [(INIT, BecomeFollowerToInit), (FOLLOWER, BecomeFollowerToFollower)]
   | LEADER \<Rightarrow> [(INIT, LeaderToInit)]
   | FOLLOWER \<Rightarrow> [(ELECTION, FollowerToElection), (FOLLOWER, FollowerToFollower)]
   | BECOME_LEADER \<Rightarrow> [(LEADER, BecomeLeaderToLeader)]
   | ELECTION \<Rightarrow> [(FOLLOWER, ElectionToFollower), (BECOME_LEADER, ElectionToBecomeLeader),
                  (ELECTION, ElectionToElection)])"

text \<open>
  \<open>ChangeTo\<close>: the new state of the machine and the action it starts as a goroutine; for an
  invalid transition nothing happens but a line of output.
\<close>

definition ChangeTo :: "State \<Rightarrow> State \<Rightarrow> State \<times> Action option" where
  "ChangeTo s t = (case map_of (transitions s) t of
     Some action \<Rightarrow> (t, Some action) | None \<Rightarrow> (s, None))"

definition allowed :: "State \<Rightarrow> State \<Rightarrow> bool" where
  "allowed s t \<longleftrightarrow> snd (ChangeTo s t) \<noteq> None"

section \<open>The graph\<close>

text \<open>The states an action belongs to: where it starts and where it leads.\<close>

fun endpoints :: "Action \<Rightarrow> State \<times> State" where
  "endpoints StartToInit = (START, INIT)"
| "endpoints InitToBecomeFollower = (INIT, BECOME_FOLLOWER)"
| "endpoints InitToLeader = (INIT, LEADER)"
| "endpoints BecomeFollowerToInit = (BECOME_FOLLOWER, INIT)"
| "endpoints BecomeFollowerToFollower = (BECOME_FOLLOWER, FOLLOWER)"
| "endpoints LeaderToInit = (LEADER, INIT)"
| "endpoints FollowerToElection = (FOLLOWER, ELECTION)"
| "endpoints FollowerToFollower = (FOLLOWER, FOLLOWER)"
| "endpoints BecomeLeaderToLeader = (BECOME_LEADER, LEADER)"
| "endpoints ElectionToFollower = (ELECTION, FOLLOWER)"
| "endpoints ElectionToBecomeLeader = (ELECTION, BECOME_LEADER)"
| "endpoints ElectionToElection = (ELECTION, ELECTION)"

text \<open>Every action of the table runs on the transition its name says, and on no other.\<close>

lemma ChangeTo_action: "snd (ChangeTo s t) = Some a \<longleftrightarrow> endpoints a = (s, t)"
  by (cases s; cases t; cases a; simp add: ChangeTo_def transitions_def)

lemma ChangeTo_state: "fst (ChangeTo s t) = (if allowed s t then t else s)"
  by (simp add: ChangeTo_def allowed_def split: option.split)

fun change_all :: "State \<Rightarrow> State list \<Rightarrow> State" where
  "change_all s [] = s"
| "change_all s (t # ts) = change_all (fst (ChangeTo s t)) ts"

lemma change_all_append: "change_all s (ts @ us) = change_all (change_all s ts) us"
  by (induction ts arbitrary: s) auto

text \<open>No request brings a machine back to START, and every other state can be reached from every one.\<close>

lemma no_way_to_START: "\<forall>s t. fst (ChangeTo s t) = START \<longrightarrow> s = START"
  by code_simp

lemma ChangeTo_START: "s \<noteq> START \<Longrightarrow> fst (ChangeTo s t) \<noteq> START"
  using no_way_to_START by blast

lemma change_all_START: "s \<noteq> START \<Longrightarrow> change_all s ts \<noteq> START"
  by (induction ts arbitrary: s) (auto dest: ChangeTo_START)

definition route :: "State \<Rightarrow> State list" where
  "route t = (case t of START \<Rightarrow> [] | INIT \<Rightarrow> [] | LEADER \<Rightarrow> [LEADER] | BECOME_FOLLOWER \<Rightarrow> [BECOME_FOLLOWER]
    | FOLLOWER \<Rightarrow> [BECOME_FOLLOWER, FOLLOWER] | ELECTION \<Rightarrow> [BECOME_FOLLOWER, FOLLOWER, ELECTION]
    | BECOME_LEADER \<Rightarrow> [BECOME_FOLLOWER, FOLLOWER, ELECTION, BECOME_LEADER])"

definition to_init :: "State \<Rightarrow> State list" where
  "to_init s = (case s of START \<Rightarrow> [INIT] | INIT \<Rightarrow> [] | LEADER \<Rightarrow> [INIT] | BECOME_FOLLOWER \<Rightarrow> [INIT]
    | FOLLOWER \<Rightarrow> [ELECTION, BECOME_LEADER, LEADER, INIT] | ELECTION \<Rightarrow> [BECOME_LEADER, LEADER, INIT]
    | BECOME_LEADER \<Rightarrow> [LEADER, INIT])"

lemma to_init_route:
  "change_all s (to_init s) = INIT" "t \<noteq> START \<Longrightarrow> change_all INIT (route t) = t"
  by (cases s; simp add: to_init_def ChangeTo_def transitions_def)
    (cases t; simp add: route_def ChangeTo_def transitions_def)

section \<open>Properties\<close>

text \<open>ChangeTo runs a server method exactly on the transition the method is named after, and moves to
  the requested state then and only then; a request that the table does not have changes nothing
  and runs nothing. In particular a leader's request for FOLLOWER, which its listener makes when
  an ElectionVictory message arrives, does nothing: the only state a leader can go to is INIT.\<close>

lemma ChangeTo_runs_named_action:
  "(snd (ChangeTo s t) = Some a) = (endpoints a = (s, t)) \<and>
   fst (ChangeTo s t) = (if allowed s t then t else s) \<and>
   ChangeTo LEADER FOLLOWER = (LEADER, None) \<and> allowed LEADER t = (t = INIT)"
  using ChangeTo_action [of s t] ChangeTo_state [of s t]
  by (cases t) (simp_all add: ChangeTo_def allowed_def transitions_def)

text \<open>The machine never gets stuck and never goes back: the one thing that no sequence of requests
  can do is bring a machine that has left START back to it; every other state can be reached from
  every state.\<close>

lemma reachable_states: "(\<nexists>ts. change_all s ts = t) = (s \<noteq> START \<and> t = START)"
proof (cases "t = START")
  case True
  then show ?thesis
    using change_all_START [of s] by (cases "s = START") (auto intro: exI [of _ "[]"])
next
  case False
  then have "change_all s (to_init s @ route t) = t"
    by (simp add: change_all_append to_init_route)
  then show ?thesis using False by blast
qed

end
