(* ===== verification/Broadcast.thy ===== *)
theory Broadcast
  imports StateMachine
begin

text \<open>
  The leader's beacon, \<^verbatim>\<open>server/broadcast/broadcast.go\<close>: starting and stopping the broadcasting
  goroutine, and the listener that finds other broadcasters.
\<close>

section \<open>Starting and stopping\<close>

text \<open>
  A stop channel is a number, a fresh one for every \<open>make\<close>; the goroutines that run are listed by the
  channel they watch. Closing a closed channel panics (\<open>None\<close>).
\<close>

record Broadcaster =
  b_id :: gostring
  b_stopping :: bool
  b_stopChan :: nat
  b_closed :: "nat set"
  b_running :: "nat list"

definition NewBroadcaster :: "gostring \<Rightarrow> Broadcaster" where
  "NewBroadcaster uuid =
     \<lparr>b_id = uuid, b_stopping = False, b_stopChan = 0, b_closed = {}, b_running = []\<rparr>"

definition close_stop :: "Broadcaster \<Rightarrow> Broadcaster option" where
  "close_stop b =
     (if b_stopChan b \<in> b_closed b then None
      else Some (b\<lparr>b_closed := insert (b_stopChan b) (b_closed b)\<rparr>))"

text \<open>
  \<open>waitGroup.Wait()\<close> returns once every goroutine has seen its channel closed. A goroutine whose
  channel is open keeps \<open>Wait\<close> from returning; \<open>wait_returns\<close> says that there is none.
\<close>

definition wait_returns :: "Broadcaster \<Rightarrow> bool" where
  "wait_returns b \<longleftrightarrow> set (b_running b) \<subseteq> b_closed b"

datatype 'a outcome = Returns 'a | Blocks | Panics

definition wait_group :: "Broadcaster \<Rightarrow> Broadcaster outcome" where
  "wait_group b = (if wait_returns b then Returns (b\<lparr>b_running := []\<rparr>) else Blocks)"

fun bind_outcome :: "'a outcome \<Rightarrow> ('a \<Rightarrow> 'b outcome) \<Rightarrow> 'b outcome" where
  "bind_outcome (Returns x) f = f x"
| "bind_outcome Blocks f = Blocks"
| "bind_outcome Panics f = Panics"

lemma bind_outcome_Returns: "bind_outcome x f = Returns y \<longleftrightarrow> (\<exists>v. x = Returns v \<and> f v = Returns y)"
  by (cases x) simp_all

definition closing :: "Broadcaster \<Rightarrow> Broadcaster outcome" where
  "closing b = (case close_stop b of None \<Rightarrow> Panics | Some b' \<Rightarrow> Returns b')"

definition Start :: "Broadcaster \<Rightarrow> Broadcaster outcome" where
  "Start b =
     bind_outcome (if b_stopping b then Returns b else bind_outcome (closing b) wait_group)
       (\<lambda>b. let ch = Suc (b_stopChan b) in
            Returns (b\<lparr>b_stopChan := ch, b_stopping := False, b_running := ch # b_running b\<rparr>))"

definition Stop :: "Broadcaster \<Rightarrow> Broadcaster outcome" where
  "Stop b = (if b_stopping b then Returns b
             else bind_outcome (closing (b\<lparr>b_stopping := True\<rparr>)) wait_group)"

datatype call = CallStart | CallStop

fun run_call :: "Broadcaster \<Rightarrow> call \<Rightarrow> Broadcaster outcome" where
  "run_call b CallStart = Start b"
| "run_call b CallStop = Stop b"

fun run_calls :: "Broadcaster \<Rightarrow> call list \<Rightarrow> Broadcaster outcome" where
  "run_calls b [] = Returns b"
| "run_calls b (c # cs) = bind_outcome (run_call b c) (\<lambda>b. run_calls b cs)"

section \<open>The listener\<close>

text \<open>
  What \<open>listen\<close> makes of a datagram: \<open>parses\<close> stands for \<open>uuid.Parse\<close> without an error (a package that
  is not part of the repository). A datagram that is no identifier, or the own one, is skipped.
\<close>

definition listen_datagram :: "(gostring \<Rightarrow> bool) \<Rightarrow> gostring \<Rightarrow> gostring \<Rightarrow> bytes \<Rightarrow> BMessage option" where
  "listen_datagram parses self ip datagram =
     (let clientUUIDStr = recv_buf datagram in
      if \<not> parses clientUUIDStr then None
      else if clientUUIDStr = self then None
      else Some \<lparr>bc_UUID = clientUUIDStr, bc_IP = ip\<rparr>)"

text \<open>
  \<open>IsAnyOneBroadcasting\<close>: the first message that comes before the timer does. The datagrams of the
  listening period are given in the order they arrive.
\<close>

fun IsAnyOneBroadcasting ::
  "(gostring \<Rightarrow> bool) \<Rightarrow> gostring \<Rightarrow> (gostring \<times> bytes) list \<Rightarrow> BMessage option" where
  "IsAnyOneBroadcasting parses self [] = None"
| "IsAnyOneBroadcasting parses self ((ip, datagram) # ds) =
     (case listen_datagram parses self ip datagram of
        Some msg \<Rightarrow> Some msg
      | None \<Rightarrow> IsAnyOneBroadcasting parses self ds)"

text \<open>
  The loop of \<open>listen\<close>: the quit channel is looked at before every read, which fails (\<open>None\<close>) or brings a
  datagram with the address of its sender, which may be of a type that the loop skips. The result
  lists the messages put on the channel.
\<close>

fun listen :: "(gostring \<Rightarrow> bool) \<Rightarrow> gostring \<Rightarrow> (bool \<times> (gostring option \<times> bytes) option) list \<Rightarrow> BMessage list" where
  "listen parses self [] = []"
| "listen parses self ((quit, read) # es) =
     (if quit then []
      else
        (case read of
           None \<Rightarrow> []
         | Some (None, datagram) \<Rightarrow> listen parses self es
         | Some (Some ip, datagram) \<Rightarrow>
             (case listen_datagram parses self ip datagram of
                None \<Rightarrow> listen parses self es
              | Some msg \<Rightarrow> msg # listen parses self es)))"

text \<open>
  \<open>SendUDP\<close> panics when it cannot bind its port, resolve the address or write. The goroutine of \<open>Start\<close>
  sends the identifier until it sees its stop channel closed; each round is given by whether it is,
  and whether the three calls succeed.
\<close>

definition SendUDP :: "bool \<Rightarrow> bool \<Rightarrow> bool \<Rightarrow> bytes \<Rightarrow> bytes option" where
  "SendUDP bound resolved written data = (if bound \<and> resolved \<and> written then Some data else None)"

fun beacon_loop :: "gostring \<Rightarrow> (bool \<times> bool \<times> bool \<times> bool) list \<Rightarrow> bytes list option" where
  "beacon_loop uuid [] = Some []"
| "beacon_loop uuid ((stopped, bound, resolved, written) # es) =
     (if stopped then Some []
      else
        (case SendUDP bound resolved written uuid of
           None \<Rightarrow> None
         | Some data \<Rightarrow> map_option (\<lambda>ds. data # ds) (beacon_loop uuid es)))"

section \<open>The contract of start and stop\<close>

definition broadcaster_inv :: "Broadcaster \<Rightarrow> bool" where
  "broadcaster_inv b \<longleftrightarrow>
     (b_stopChan b \<in> b_closed b) = b_stopping b \<and> (\<forall>ch \<in> b_closed b. ch \<le> b_stopChan b) \<and>
     (if b_stopping b then b_running b = [] else b_running b = [] \<or> b_running b = [b_stopChan b])"

lemma NewBroadcaster_inv: "broadcaster_inv (NewBroadcaster uuid)"
  by (simp add: broadcaster_inv_def NewBroadcaster_def)

lemma Start_returns:
  "broadcaster_inv b \<Longrightarrow> \<exists>b'. Start b = Returns b' \<and> broadcaster_inv b' \<and> b_id b' = b_id b \<and>
     \<not> b_stopping b' \<and> b_running b' = [b_stopChan b'] \<and> b_stopChan b' = Suc (b_stopChan b)"
  by (auto simp: Start_def closing_def close_stop_def wait_group_def wait_returns_def Let_def
      broadcaster_inv_def split: if_splits)

lemma Stop_returns:
  "broadcaster_inv b \<Longrightarrow> \<exists>b'. Stop b = Returns b' \<and> broadcaster_inv b' \<and> b_id b' = b_id b \<and>
     b_stopping b' \<and> b_running b' = []"
  by (auto simp: Stop_def closing_def close_stop_def wait_group_def wait_returns_def
      broadcaster_inv_def split: if_splits)

lemma run_calls_returns:
  "broadcaster_inv b \<Longrightarrow> \<exists>b'. run_calls b cs = Returns b' \<and> broadcaster_inv b' \<and>
     (cs = [] \<or> b_running b' = (if last cs = CallStart then [b_stopChan b'] else []) \<and>
       b_stopping b' = (last cs \<noteq> CallStart))"
proof (induction cs arbitrary: b)
  case (Cons c cs)
  obtain b1 where b1: "run_call b c = Returns b1" "broadcaster_inv b1"
    "b_running b1 = (if c = CallStart then [b_stopChan b1] else [])" "b_stopping b1 = (c \<noteq> CallStart)"
    using Start_returns [OF Cons.prems] Stop_returns [OF Cons.prems] by (cases c) auto
  from Cons.IH [OF b1(2)] show ?case using b1 by (cases "cs = []") auto
qed simp

lemma IsAnyOneBroadcasting_find:
  "IsAnyOneBroadcasting parses self ds =
     map_option (\<lambda>(ip, d). \<lparr>bc_UUID = recv_buf d, bc_IP = ip\<rparr>)
       (List.find (\<lambda>(ip, d). parses (recv_buf d) \<and> recv_buf d \<noteq> self) ds)"
  by (induction parses self ds rule: IsAnyOneBroadcasting.induct) (auto simp: listen_datagram_def Let_def)

text \<open>What the beacon of a node sends, the listener of another one reports, with the sender's address.\<close>

lemma listen_hears:
  "parses uuid \<Longrightarrow> uuid \<noteq> self \<Longrightarrow> length uuid \<le> 1024 \<Longrightarrow> beacon_loop uuid rounds = Some ds \<Longrightarrow>
     listen parses self (map (\<lambda>d. (False, Some (Some ip, d))) ds) = map (\<lambda>d. \<lparr>bc_UUID = uuid, bc_IP = ip\<rparr>) ds"
  by (induction uuid rounds arbitrary: ds rule: beacon_loop.induct)
    (auto simp: SendUDP_def listen_datagram_def recv_buf_def Let_def split: if_splits)

section \<open>Properties\<close>

text \<open>Whatever the order in which Start and Stop are called on a new broadcaster, no call panics on
  a closed channel and none waits forever; after a Start exactly one goroutine is broadcasting,
  and after a Stop none is. (All calls come from one goroutine, the server's main loop.)\<close>

lemma broadcaster_single_beacon:
  "\<exists>b. run_calls (NewBroadcaster uuid) (cs @ [c]) = Returns b \<and>
     b_running b = (if c = CallStart then [b_stopChan b] else []) \<and> (b_stopChan b \<in> b_closed b) = (c = CallStop)"
proof -
  obtain b where "run_calls (NewBroadcaster uuid) (cs @ [c]) = Returns b" "broadcaster_inv b"
    "b_running b = (if c = CallStart then [b_stopChan b] else [])" "b_stopping b = (c \<noteq> CallStart)"
    using run_calls_returns [OF NewBroadcaster_inv, of uuid "cs @ [c]"] by auto
  then show ?thesis by (cases c) (auto simp: broadcaster_inv_def)
qed

end
