(* ===== verification/ServerCore.thy ===== *)
theory ServerCore
  imports Multicast Broadcast
begin

text \<open>
  The server object of \<^verbatim>\<open>server/server.go\<close>: its state, the peer table, leadership by identifier,
  and the operations that change the membership of the multicast session.
\<close>

section \<open>State and effects\<close>

text \<open>
  The fields of \<open>Server\<close> that its methods read and write; channels and sockets are effects.
  \<open>sv_sm\<close> is the state of the state machine, which \<open>ChangeTo\<close> sets at once, \<open>sv_state\<close> the one
  that the main loop sets when it takes the new state from \<open>stateChan\<close>; \<open>sv_listener\<close> is the
  state of the current state listener.
\<close>

record Server =
  sv_id :: gostring
  sv_ip :: gostring
  sv_leaderID :: gostring
  sv_sm :: State
  sv_state :: State
  sv_listener :: State
  sv_rm :: ReliableMulticast
  sv_rmPort :: u32
  sv_broadcaster :: Broadcaster
  sv_peers :: "(gostring, gostring) fmap"
  sv_electionMap :: "(gostring, bool) fmap"

text \<open>
  What an operation sets in motion: an action of the state machine, a new state for the main loop,
  a reliable unicast in a goroutine, the retransmission of a multicast, a listener on the new
  multicast session, a heartbeat to the leader, the sends on the server's channels, the closing of
  a listener's quit channel, and a line that has to wait for another try.
\<close>

datatype effect =
  Run_Action Action StateMachineMessage
| To_stateChan State
| Unicast_To gostring gostring "bytes option"
| Retransmit bytes u32
| Listen_Multicast
| Start_Heartbeat gostring
| To_uMsgChan UMessage
| To_applicationMsgChan gostring
| Close_Quit State
| Hold_Line gostring

definition no_args :: StateMachineMessage where
  "no_args = \<lparr>smm_Broadcast = None, smm_Unicast = None\<rparr>"

text \<open>\<open>s.sm.ChangeTo(state, args)\<close>.\<close>

definition sm_ChangeTo :: "Server \<Rightarrow> State \<Rightarrow> StateMachineMessage \<Rightarrow> Server \<times> effect list" where
  "sm_ChangeTo s t args =
     (case ChangeTo (sv_sm s) t of
        (t', None) \<Rightarrow> (s\<lparr>sv_sm := t'\<rparr>, [])
      | (t', Some action) \<Rightarrow> (s\<lparr>sv_sm := t'\<rparr>, [Run_Action action args]))"

text \<open>
  \<open>NewServer\<close>, given what it asks of the outside: a fresh identifier, the own address, a free
  port. The multicast session starts with the server alone.
\<close>

definition NewServer :: "gostring \<Rightarrow> gostring \<Rightarrow> u32 \<Rightarrow> Server option" where
  "NewServer uid ip port =
     (case NewReliableMulticast uid port [uid] of
        None \<Rightarrow> None
      | Some rm \<Rightarrow> Some \<lparr>sv_id = uid, sv_ip = ip, sv_leaderID = [], sv_sm = START, sv_state = INIT,
          sv_listener = START, sv_rm = rm, sv_rmPort = port, sv_broadcaster = NewBroadcaster uid,
          sv_peers = fmupd uid ip fmempty, sv_electionMap = fmempty\<rparr>)"

section \<open>The peer table\<close>

text \<open>
  The loop \<open>for index, uuid := range msg.PeerIds { peers[uuid] = msg.PeerIps[index] }\<close>, which
  panics when there are fewer addresses than identifiers.
\<close>

fun add_peers ::
  "gostring list \<Rightarrow> gostring list \<Rightarrow> (gostring, gostring) fmap \<Rightarrow> (gostring, gostring) fmap option" where
  "add_peers [] ips peers = Some peers"
| "add_peers (uuid # uuids) (ip # ips) peers = add_peers uuids ips (fmupd uuid ip peers)"
| "add_peers (uuid # uuids) [] peers = None"

text \<open>A message whose payload does not decode is a nil pointer that the next line dereferences.\<close>

definition addPeersFromPeerInfo :: "Server \<Rightarrow> UMessage \<Rightarrow> Server option" where
  "addPeersFromPeerInfo s umsg =
     (case Decode (u_Message umsg) of
        Inl e \<Rightarrow> None
      | Inr msg \<Rightarrow> map_option (\<lambda>peers. s\<lparr>sv_peers := peers\<rparr>)
                    (add_peers (m_PeerIds msg) (m_PeerIps msg) fmempty))"

definition isHighestID :: "Server \<Rightarrow> bool" where
  "isHighestID s \<longleftrightarrow> fmpred (\<lambda>uuid ip. uuid = sv_id s \<or> \<not> sv_id s < uuid) (sv_peers s)"

text \<open>
  \<open>getRandomPeerID\<close> walks the peers in some order and returns the address of the \<open>n\<close>th; the random
  number generator panics when there are no peers.
\<close>

definition getRandomPeerID :: "Server \<Rightarrow> gostring list \<Rightarrow> nat \<Rightarrow> gostring option" where
  "getRandomPeerID s ks n = (if n < length ks then fmlookup (sv_peers s) (ks ! n) else None)"

section \<open>Joining, admitting and losing members\<close>

definition joinMulticastFromPeerInfo :: "Server \<Rightarrow> UMessage \<Rightarrow> (Server \<times> effect list) option" where
  "joinMulticastFromPeerInfo s umsg =
     (case Decode (u_Message umsg) of
        Inl e \<Rightarrow> None
      | Inr msg \<Rightarrow>
          (case add_peers (m_PeerIds msg) (m_PeerIps msg) fmempty of
             None \<Rightarrow> None
           | Some peers \<Rightarrow>
               (case Shutdown (sv_rm s) of
                  None \<Rightarrow> None
                | Some old \<Rightarrow>
                    if sv_rmPort s \<noteq> m_MulticastPort msg then
                      (case NewReliableMulticast (sv_id s) (m_MulticastPort msg) (m_PeerIds msg) of
                         None \<Rightarrow> None
                       | Some rm \<Rightarrow>
                           Some (s\<lparr>sv_peers := peers, sv_rmPort := m_MulticastPort msg, sv_rm := rm\<rparr>,
                                 [Listen_Multicast]))
                    else Some (s\<lparr>sv_peers := peers, sv_rm := old\<rparr>, []))))"

text \<open>
  \<open>connectToLeaderHandler\<close> in its three parts: the admission under the lock, with the peers in an
  order \<open>ks\<close>; the way back when the new node cannot be reached; and the new session, which every
  other member is told about. \<open>port\<close> is what \<open>getRandomUDPPort\<close> returned.
\<close>

record admission =
  ad_peerIds :: "gostring list"
  ad_peerIps :: "gostring list"
  ad_clocks :: "u32 list"

definition connect_admit :: "Server \<Rightarrow> gostring \<Rightarrow> gostring \<Rightarrow> gostring list \<Rightarrow> Server \<times> admission" where
  "connect_admit s fromUUID fromIP ks =
     (let peers = fmupd fromUUID fromIP (sv_peers s) in
      (s\<lparr>sv_peers := peers\<rparr>,
       \<lparr>ad_peerIds = ks, ad_peerIps = map (map_get [] peers) ks, ad_clocks = replicate (length ks) 0\<rparr>))"

definition peer_info :: "admission \<Rightarrow> u32 \<Rightarrow> bytes option" where
  "peer_info a port = NewPeerInfoMessage (ad_peerIds a) (ad_peerIps a) port (ad_clocks a)"

definition connect_failed :: "Server \<Rightarrow> gostring \<Rightarrow> Server" where
  "connect_failed s fromUUID = s\<lparr>sv_peers := fmdrop fromUUID (sv_peers s)\<rparr>"

definition session_change :: "admission \<Rightarrow> u32 \<Rightarrow> bytes option" where
  "session_change a port =
     NewMulticastSessionChangeMessage (ad_peerIds a) (ad_peerIps a) (ad_clocks a) port"

definition tell_others :: "gostring \<Rightarrow> gostring \<Rightarrow> admission \<Rightarrow> bytes option \<Rightarrow> effect list" where
  "tell_others leaderID fromUUID a data =
     map (\<lambda>(uuid, ip). Unicast_To ip uuid data)
       (filter (\<lambda>(uuid, ip). uuid \<noteq> leaderID \<and> uuid \<noteq> fromUUID) (zip (ad_peerIds a) (ad_peerIps a)))"

definition connect_switch ::
  "Server \<Rightarrow> gostring \<Rightarrow> admission \<Rightarrow> u32 \<Rightarrow> (Server \<times> effect list) option" where
  "connect_switch s fromUUID a port =
     (case session_change a port of
        None \<Rightarrow> None
      | Some data \<Rightarrow>
          (case NewReliableMulticast (sv_id s) port (ad_peerIds a) of
             None \<Rightarrow> None
           | Some rm \<Rightarrow>
               (case Shutdown (sv_rm s) of
                  None \<Rightarrow> None
                | Some old \<Rightarrow>
                    Some (s\<lparr>sv_rm := rm, sv_rmPort := port\<rparr>,
                          tell_others (sv_id s) fromUUID a (Some data) @ [Listen_Multicast]))))"

definition connectToLeaderHandler ::
  "Server \<Rightarrow> gostring \<Rightarrow> gostring \<Rightarrow> gostring list \<Rightarrow> u32 \<Rightarrow> bool \<Rightarrow> (Server \<times> effect list) option" where
  "connectToLeaderHandler s fromUUID fromIP ks port sent =
     (case connect_admit s fromUUID fromIP ks of (s1, a) \<Rightarrow>
        (case peer_info a port of
           None \<Rightarrow> None
         | Some info \<Rightarrow>
             if sent then connect_switch s1 fromUUID a port
             else Some (connect_failed s1 fromUUID, [])))"

text \<open>
  \<open>handleDeadServer\<close>: only a peer that is still in the table is removed and announced. \<open>ks\<close> is
  the order in which the encoder walks the vector clock.
\<close>

definition handleDeadServer :: "Server \<Rightarrow> gostring \<Rightarrow> gostring list \<Rightarrow> (Server \<times> effect list) option" where
  "handleDeadServer s uuid ks =
     (case fmlookup (sv_peers s) uuid of
        None \<Rightarrow> Some (s, [])
      | Some ip \<Rightarrow>
          (case NewDeadNodeMessage uuid ip of
             None \<Rightarrow> None
           | Some data \<Rightarrow>
               (case SendMessage (RemoveDeadNode (sv_rm s) uuid) ks data of
                  None \<Rightarrow> None
                | Some (rm, enc, frame) \<Rightarrow>
                    Some (s\<lparr>sv_peers := fmdrop uuid (sv_peers s), sv_rm := rm\<rparr>, [Retransmit enc frame]))))"

end
