(* ===== verification/ServerDispatch.thy ===== *)
theory ServerDispatch
  imports ServerCore CausalDelivery
begin

text \<open>
  The server's dispatchers: \<^verbatim>\<open>server/unicast.go\<close>, which takes the messages of reliable unicast, and
  \<^verbatim>\<open>server/multicast.go\<close>, which takes the messages that the multicast layer delivers and sends the
  lines of the chat clients.
\<close>

section \<open>Unicast messages\<close>

text \<open>The branch for MulticastSessionChange: the new members, a new session, the old one shut down.\<close>

definition enter_session :: "Server \<Rightarrow> AppMessage \<Rightarrow> (Server \<times> effect list) option" where
  "enter_session s uMsg =
     (case add_peers (m_PeerIds uMsg) (m_PeerIps uMsg) fmempty of
        None \<Rightarrow> None
      | Some peers \<Rightarrow>
          (case NewReliableMulticast (sv_id s) (m_MulticastPort uMsg) (m_PeerIds uMsg) of
             None \<Rightarrow> None
           | Some rm \<Rightarrow>
               (case Shutdown (sv_rm s) of
                  None \<Rightarrow> None
                | Some old \<Rightarrow>
                    Some (s\<lparr>sv_peers := peers, sv_rm := rm, sv_rmPort := m_MulticastPort uMsg\<rparr>,
                          [Listen_Multicast]))))"

text \<open>The types that the listener of a state takes from \<open>uMsgChan\<close>.\<close>

definition forwarded :: "State \<Rightarrow> MessageType \<Rightarrow> bool" where
  "forwarded state t \<longleftrightarrow>
     (case state of
        BECOME_FOLLOWER \<Rightarrow> t = PeerInfo
      | FOLLOWER \<Rightarrow> t = Election \<or> t = ElectionVictory
      | LEADER \<Rightarrow> t = ConnectToLeader \<or> t = ElectionVictory
      | _ \<Rightarrow> False)"

text \<open>One message of \<open>startUnicastMessageListener\<close>; a payload that does not decode panics.\<close>

definition dispatch_unicast :: "Server \<Rightarrow> UMessage \<Rightarrow> (Server \<times> effect list) option" where
  "dispatch_unicast s msg =
     (case Decode (u_Message msg) of
        Inl e \<Rightarrow> None
      | Inr uMsg \<Rightarrow>
          let t = m_Type uMsg; state = sv_state s in
          (case (if t = MulticastSessionChange then enter_session s uMsg else Some (s, [])) of
             None \<Rightarrow> None
           | Some (s1, effs) \<Rightarrow>
               let s2 = (if t = MulticastAck
                         then s1\<lparr>sv_rm := OnAck (sv_rm s1) (u_FromUUID msg) (m_Frame uMsg)\<rparr> else s1) in
               Some (s2, effs @ (if t = Election then []
                                 else if forwarded state t then [To_uMsgChan msg] else []))))"

text \<open>
  \<open>peerInfoFromLeader\<close>: the messages that come through \<open>uMsgChan\<close> before the timer does. The outer
  \<open>None\<close> is a panic, the inner one the timeout.
\<close>

fun peerInfoFromLeader :: "gostring \<Rightarrow> UMessage list \<Rightarrow> UMessage option option" where
  "peerInfoFromLeader leaderUUID [] = Some None"
| "peerInfoFromLeader leaderUUID (msg # msgs) =
     (case Decode (u_Message msg) of
        Inl e \<Rightarrow> None
      | Inr m \<Rightarrow>
          if m_Type m \<noteq> PeerInfo \<or> u_FromUUID msg \<noteq> leaderUUID
          then peerInfoFromLeader leaderUUID msgs
          else Some (Some msg))"

section \<open>Multicast messages\<close>

text \<open>One message of \<open>startMulticastMessageListener\<close>; \<open>None\<close> is the \<open>Fatal\<close> of the PeerInfo branch.\<close>

definition dispatch_multicast :: "Server \<Rightarrow> MMessage \<Rightarrow> (Server \<times> effect list) option" where
  "dispatch_multicast s msg =
     (if mc_UUID msg = sv_id s then Some (s, [])
      else
        (case Decode (mc_Message msg) of
           Inl e \<Rightarrow> Some (s, [])
         | Inr d \<Rightarrow>
             let t = m_Type d in
             if t = DeadNode then Some (s\<lparr>sv_peers := fmdrop (m_UUID d) (sv_peers s)\<rparr>, [])
             else if t = ElectionVictory then
               let s1 = s\<lparr>sv_leaderID := mc_UUID msg\<rparr> in
               (if sv_state s = FOLLOWER \<or> sv_state s = ELECTION
                then Some (sm_ChangeTo s1 FOLLOWER no_args)
                else Some (s1, []))
             else if t = Application then Some (s, [To_applicationMsgChan (m_Msg d)])
             else if t = PeerInfo then
               (if length (m_PeerIds d) \<noteq> length (m_PeerIps d) then None
                else map_option (\<lambda>peers. (s\<lparr>sv_peers := peers\<rparr>, []))
                       (add_peers (m_PeerIds d) (m_PeerIps d) fmempty))
             else Some (s, [])))"

section \<open>Chat lines\<close>

text \<open>
  One turn of \<open>startMutlicastSender\<close> with a line: while the node is neither a leader nor a follower the
  line is held, and the same turn is made again with it 100 milliseconds later (\<open>Hold_Line\<close>); otherwise
  an empty line becomes a blank, and the line goes out as an application message.
\<close>

definition may_multicast :: "Server \<Rightarrow> bool" where
  "may_multicast s \<longleftrightarrow> sv_state s = LEADER \<or> sv_state s = FOLLOWER"

definition chat_payload :: "gostring \<Rightarrow> bytes option" where
  "chat_payload msg = NewApplicationMessage (if msg = [] then lit '' '' else msg)"

definition multicast_line :: "Server \<Rightarrow> gostring list \<Rightarrow> gostring \<Rightarrow> (Server \<times> effect list) option" where
  "multicast_line s ks msg =
     (if \<not> may_multicast s then Some (s, [Hold_Line msg])
      else
        (case chat_payload msg of
           None \<Rightarrow> None
         | Some data \<Rightarrow>
             (case SendMessage (sv_rm s) ks data of
                None \<Rightarrow> None
              | Some (rm, enc, frame) \<Rightarrow> Some (s\<lparr>sv_rm := rm\<rparr>, [Retransmit enc frame]))))"

section \<open>Facts\<close>

text \<open>A message about a dead peer can always be made.\<close>

lemma dead_node_message: "NewDeadNodeMessage uuid ip \<noteq> None"
  unfolding NewDeadNodeMessage_def Encode_None_iff by (simp add: typed_message_def message_types)

lemma add_peers_total: "add_peers ids ips p \<noteq> None \<longleftrightarrow> length ids \<le> length ips"
  by (induction ids ips p rule: add_peers.induct) auto

lemma add_peers_dom:
  "add_peers ids ips p = Some q \<Longrightarrow> (fmlookup q k \<noteq> None) = (k \<in> set ids \<or> fmlookup p k \<noteq> None)"
  by (induction ids ips p rule: add_peers.induct) auto

lemma add_peers_map:
  "add_peers ids (map f ids) p = Some (fold (\<lambda>k. fmupd k (f k)) ids p)"
  by (induction ids arbitrary: p) auto

lemma lookup_fold_upd:
  "fmlookup (fold (\<lambda>k. fmupd k (f k)) ids p) k = (if k \<in> set ids then Some (f k) else fmlookup p k)"
  by (induction ids arbitrary: p) auto

lemma range_order_mem: "range_order ks m \<Longrightarrow> k \<in> set ks \<longleftrightarrow> fmlookup m k \<noteq> None"
  by (metis fmdom_notD fmlookup_dom_iff fset_of_list_elem option.distinct(1) range_order_def)

text \<open>A table sent as two lists in any order is the same table again.\<close>

lemma add_peers_range: "range_order ks p \<Longrightarrow> add_peers ks (map (map_get [] p) ks) fmempty = Some p"
  by (auto simp: add_peers_map lookup_fold_upd range_order_mem intro!: fmap_ext split: if_splits)

text \<open>What the leader announces, and what it takes for a member to enter the session.\<close>

definition table_ok :: "gostring list \<Rightarrow> (gostring, gostring) fmap \<Rightarrow> bool" where
  "table_ok ks peers \<longleftrightarrow> range_order ks peers \<and> length ks < 2 ^ 32 \<and>
     list_all short ks \<and> list_all (\<lambda>k. short (map_get [] peers k)) ks"

lemma announcement:
  assumes "table_ok ks peers" "t = PeerInfo \<or> t = MulticastSessionChange"
    and "data = Encode ((typed_message t)\<lparr>m_PeerIds := ks, m_PeerIps := map (map_get [] peers) ks,
           m_Clock := replicate (length ks) 0, m_MulticastPort := port\<rparr>)"
  shows "\<exists>b. data = Some b \<and>
    Decode b = Inr ((typed_message t)\<lparr>m_PeerIds := ks, m_PeerIps := map (map_get [] peers) ks,
           m_Clock := replicate (length ks) 0, m_MulticastPort := port\<rparr>)"
proof -
  let ?m = "(typed_message t)\<lparr>m_PeerIds := ks, m_PeerIps := map (map_get [] peers) ks,
           m_Clock := replicate (length ks) 0, m_MulticastPort := port\<rparr>"
  have "wf_message ?m"
    using assms(1,2) by (auto simp: wf_message_def table_ok_def typed_message_def message_types list.pred_map comp_def)
  moreover have "canonical ?m = ?m"
    using assms(2) by (auto simp: canonical_def typed_message_def message_types Let_def)
  ultimately show ?thesis
    using wf_Encode [of ?m] Decode_Encode [of ?m] assms(3) by metis
qed

lemma new_session_exists:
  "i \<in> set ks \<Longrightarrow> 4 \<le> length i \<Longrightarrow> \<exists>m. NewReliableMulticast i port ks = Some m"
  using new_session_cases [of i port ks] by blast

lemma NewPeerInfoMessage_eq:
  "NewPeerInfoMessage ids ips port clock = Encode ((typed_message PeerInfo)
     \<lparr>m_PeerIds := ids, m_PeerIps := ips, m_Clock := clock, m_MulticastPort := port\<rparr>)"
  by (simp add: NewPeerInfoMessage_def typed_message_def)

definition admitted :: "Server \<Rightarrow> gostring \<Rightarrow> gostring \<Rightarrow> (gostring, gostring) fmap" where
  "admitted s fromUUID fromIP = fmupd fromUUID fromIP (sv_peers s)"

lemma connect_succeeds:
  assumes "table_ok ks (admitted s fromUUID fromIP)" "sv_id s \<in> set ks" "4 \<le> length (sv_id s)"
    and "\<not> rm_quit (sv_rm s)"
  shows "\<exists>s' effs. connectToLeaderHandler s fromUUID fromIP ks port True = Some (s', effs) \<and>
     sv_peers s' = admitted s fromUUID fromIP \<and> sv_rmPort s' = port \<and>
     NewReliableMulticast (sv_id s) port ks = Some (sv_rm s')"
proof -
  obtain b1 where "NewPeerInfoMessage ks (map (map_get [] (admitted s fromUUID fromIP)) ks) port
      (replicate (length ks) 0) = Some b1"
    using announcement [OF assms(1), of PeerInfo _ port] by (auto simp: NewPeerInfoMessage_eq)
  moreover obtain b2 where "NewMulticastSessionChangeMessage ks (map (map_get [] (admitted s fromUUID fromIP)) ks)
      (replicate (length ks) 0) port = Some b2"
    using announcement [OF assms(1), of MulticastSessionChange _ port]
    by (auto simp: NewMulticastSessionChangeMessage_def)
  moreover obtain rm where "NewReliableMulticast (sv_id s) port ks = Some rm"
    using new_session_exists [OF assms(2,3)] by blast
  ultimately show ?thesis
    using assms(4)
    by (simp add: connectToLeaderHandler_def connect_admit_def peer_info_def connect_switch_def
        session_change_def Shutdown_def Let_def admitted_def)
qed

lemma member_enters:
  assumes "table_ok ks peers" "sv_id t \<in> set ks" "4 \<le> length (sv_id t)" "\<not> rm_quit (sv_rm t)"
    and "NewMulticastSessionChangeMessage ks (map (map_get [] peers) ks) (replicate (length ks) 0) port =
           Some (u_Message msg)"
  shows "\<exists>t'. dispatch_unicast t msg = Some (t', [Listen_Multicast]) \<and> sv_peers t' = peers \<and>
     sv_rmPort t' = port \<and> NewReliableMulticast (sv_id t) port ks = Some (sv_rm t')"
proof -
  have "Decode (u_Message msg) = Inr ((typed_message MulticastSessionChange)\<lparr>m_PeerIds := ks,
      m_PeerIps := map (map_get [] peers) ks, m_Clock := replicate (length ks) 0, m_MulticastPort := port\<rparr>)"
    using announcement [OF assms(1), of MulticastSessionChange _ port] assms(5)
    by (auto simp: NewMulticastSessionChangeMessage_def)
  moreover obtain rm where "NewReliableMulticast (sv_id t) port ks = Some rm"
    using new_session_exists [OF assms(2,3)] by blast
  moreover have "add_peers ks (map (map_get [] peers) ks) fmempty = Some peers"
    using assms(1) add_peers_range by (simp add: table_ok_def)
  moreover have "\<not> forwarded st MulticastSessionChange" for st
    by (cases st) (simp_all add: forwarded_def message_types)
  ultimately show ?thesis
    using assms(4)
    by (simp add: dispatch_unicast_def enter_session_def Shutdown_def Let_def typed_message_def message_types)
qed

lemma newcomer_enters:
  assumes "table_ok ks peers" "sv_id t \<in> set ks" "4 \<le> length (sv_id t)" "\<not> rm_quit (sv_rm t)"
    and "NewPeerInfoMessage ks (map (map_get [] peers) ks) port (replicate (length ks) 0) = Some (u_Message msg)"
    and "sv_rmPort t \<noteq> port"
  shows "\<exists>t'. joinMulticastFromPeerInfo t msg = Some (t', [Listen_Multicast]) \<and> sv_peers t' = peers \<and>
     sv_rmPort t' = port \<and> NewReliableMulticast (sv_id t) port ks = Some (sv_rm t')"
proof -
  have "Decode (u_Message msg) = Inr ((typed_message PeerInfo)\<lparr>m_PeerIds := ks,
      m_PeerIps := map (map_get [] peers) ks, m_Clock := replicate (length ks) 0, m_MulticastPort := port\<rparr>)"
    using announcement [OF assms(1), of PeerInfo _ port] assms(5)
    by (auto simp: NewPeerInfoMessage_eq)
  moreover obtain rm where "NewReliableMulticast (sv_id t) port ks = Some rm"
    using new_session_exists [OF assms(2,3)] by blast
  moreover have "add_peers ks (map (map_get [] peers) ks) fmempty = Some peers"
    using assms(1) add_peers_range by (simp add: table_ok_def)
  ultimately show ?thesis
    using assms(4,6) by (simp add: joinMulticastFromPeerInfo_def Shutdown_def)
qed

text \<open>Two sessions opened with the same members are the same but for the owner.\<close>

lemma same_session:
  assumes "NewReliableMulticast i port ks = Some m" "NewReliableMulticast j port ks = Some n"
  shows "rm_vectorClock m = rm_vectorClock n"
  using new_session_facts(3) [OF assms(1)] new_session_facts(3) [OF assms(2)]
  by (intro fmap_ext) simp

text \<open>
  A chat line, empty or not, becomes an application message that every receiver decodes to that
  line, or to a blank for the empty line.
\<close>

lemma chat_payload_decodes:
  assumes "length line < 2 ^ 32"
  shows "\<exists>b. chat_payload line = Some b \<and> b \<noteq> [] \<and>
    (\<exists>d. Decode b = Inr d \<and> m_Type d = Application \<and> m_Msg d = (if line = [] then [32] else line))"
proof -
  let ?l = "if line = [] then [32] else line :: gostring"
  let ?m = "(typed_message Application)\<lparr>m_Msg := ?l\<rparr>"
  have wf: "wf_message ?m"
    using assms by (simp add: wf_message_def typed_message_def message_types short_def)
  have "chat_payload line = Encode ?m"
    by (simp add: chat_payload_def NewApplicationMessage_def lit_def)
  moreover obtain b where b: "Encode ?m = Some b" using wf_Encode [OF wf] by blast
  moreover have "Decode b = Inr (canonical ?m)" by (rule Decode_Encode [OF wf b])
  moreover have "m_Type (canonical ?m) = Application" "m_Msg (canonical ?m) = ?l"
    by (simp_all add: canonical_def typed_message_def message_types Let_def)
  ultimately show ?thesis by (metis Decode_Nil sum.distinct(1))
qed

section \<open>Sample servers\<close>

definition sample_server :: "gostring \<Rightarrow> State \<Rightarrow> Server" where
  "sample_server uid st = \<lparr>sv_id = uid, sv_ip = [1], sv_leaderID = [], sv_sm = st, sv_state = st,
     sv_listener = st, sv_rm = sample_node [], sv_rmPort = 0, sv_broadcaster = NewBroadcaster uid,
     sv_peers = fmupd (lit ''aaaa'') [1] (fmupd (lit ''bbbb'') [2] fmempty), sv_electionMap = fmempty\<rparr>"

definition three_ids :: "gostring list" where
  "three_ids = [lit ''cccc'', lit ''aaaa'', lit ''bbbb'']"

lemma three_ids_facts:
  "distinct three_ids" "\<forall>k \<in> set three_ids. 4 \<le> length k" "list_all (\<lambda>k. length k = 4) three_ids"
  "lit ''aaaa'' \<in> set three_ids" "lit ''bbbb'' \<in> set three_ids" "lit ''cccc'' \<in> set three_ids"
  by code_simp+

lemma sample_table: "table_ok three_ids (admitted (sample_server uid st) (lit ''cccc'') [3])"
proof -
  have "range_order three_ids (admitted (sample_server uid st) (lit ''cccc'') [3])"
    using three_ids_facts(1) by (simp add: range_order_def admitted_def sample_server_def three_ids_def)
  then show ?thesis
    by (simp add: table_ok_def admitted_def sample_server_def three_ids_def short_def lit_def)
qed

lemma not_quit [simp]: "\<not> rm_quit (sv_rm (sample_server uid st))"
  by (simp add: sample_server_def sample_node_def)

section \<open>Properties\<close>

text \<open>C12: a new node joins. When the leader can admit the node, it opens a session with all peers and the
  node; a member that receives the announcement the leader sends, and the node itself with the
  peer table it got, each open a session on the same port with the same clock, and all three have
  the same peer table.\<close>

theorem join_gives_one_session:
  assumes "table_ok ks (admitted s fromUUID fromIP)" "\<forall>k \<in> set ks. 4 \<le> length k"
    and "sv_id s \<in> set ks" "\<not> rm_quit (sv_rm s)"
    and "sv_id t \<in> set ks" "\<not> rm_quit (sv_rm t)"
    and "sv_id u \<in> set ks" "\<not> rm_quit (sv_rm u)" "sv_rmPort u \<noteq> port"
    and "session_change (snd (connect_admit s fromUUID fromIP ks)) port = Some (u_Message change)"
    and "peer_info (snd (connect_admit s fromUUID fromIP ks)) port = Some (u_Message info)"
  shows "\<exists>s' effs t' u'.
    connectToLeaderHandler s fromUUID fromIP ks port True = Some (s', effs) \<and>
    dispatch_unicast t change = Some (t', [Listen_Multicast]) \<and>
    joinMulticastFromPeerInfo u info = Some (u', [Listen_Multicast]) \<and>
    sv_peers s' = admitted s fromUUID fromIP \<and> sv_peers t' = sv_peers s' \<and> sv_peers u' = sv_peers s' \<and>
    sv_rmPort s' = port \<and> sv_rmPort t' = port \<and> sv_rmPort u' = port \<and>
    rm_vectorClock (sv_rm t') = rm_vectorClock (sv_rm s') \<and>
    rm_vectorClock (sv_rm u') = rm_vectorClock (sv_rm s')"
proof -
  obtain s' effs where s': "connectToLeaderHandler s fromUUID fromIP ks port True = Some (s', effs)"
    "sv_peers s' = admitted s fromUUID fromIP" "sv_rmPort s' = port"
    "NewReliableMulticast (sv_id s) port ks = Some (sv_rm s')"
    using connect_succeeds [OF assms(1,3) _ assms(4)] assms(2,3) by blast
  have msgs: "NewMulticastSessionChangeMessage ks (map (map_get [] (admitted s fromUUID fromIP)) ks)
      (replicate (length ks) 0) port = Some (u_Message change)"
    "NewPeerInfoMessage ks (map (map_get [] (admitted s fromUUID fromIP)) ks) port
      (replicate (length ks) 0) = Some (u_Message info)"
    using assms(10,11)
    by (simp_all add: session_change_def peer_info_def connect_admit_def Let_def admitted_def)
  obtain t' where t': "dispatch_unicast t change = Some (t', [Listen_Multicast])"
    "sv_peers t' = admitted s fromUUID fromIP" "sv_rmPort t' = port"
    "NewReliableMulticast (sv_id t) port ks = Some (sv_rm t')"
    using member_enters [OF assms(1,5) _ assms(6) msgs(1)] assms(2,5) by blast
  obtain u' where u': "joinMulticastFromPeerInfo u info = Some (u', [Listen_Multicast])"
    "sv_peers u' = admitted s fromUUID fromIP" "sv_rmPort u' = port"
    "NewReliableMulticast (sv_id u) port ks = Some (sv_rm u')"
    using newcomer_enters [OF assms(1,7) _ assms(8) msgs(2) assms(9)] assms(2,7) by blast
  show ?thesis
    using s' t' u' same_session [OF t'(4) s'(4)] same_session [OF u'(4) s'(4)] by metis
qed

theorem join_gives_one_session_witness:
  "\<exists>s' effs t' u' change info.
    connectToLeaderHandler (sample_server (lit ''aaaa'') LEADER) (lit ''cccc'') [3] three_ids 7 True = Some (s', effs) \<and>
    dispatch_unicast (sample_server (lit ''bbbb'') FOLLOWER) change = Some (t', [Listen_Multicast]) \<and>
    joinMulticastFromPeerInfo (sample_server (lit ''cccc'') BECOME_FOLLOWER) info = Some (u', [Listen_Multicast]) \<and>
    rm_vectorClock (sv_rm t') = rm_vectorClock (sv_rm s') \<and>
    rm_vectorClock (sv_rm u') = rm_vectorClock (sv_rm s')"
proof -
  let ?a = "snd (connect_admit (sample_server (lit ''aaaa'') LEADER) (lit ''cccc'') [3] three_ids)"
  have a: "?a = \<lparr>ad_peerIds = three_ids,
      ad_peerIps = map (map_get [] (admitted (sample_server (lit ''aaaa'') LEADER) (lit ''cccc'') [3])) three_ids,
      ad_clocks = replicate (length three_ids) 0\<rparr>"
    by (simp add: connect_admit_def Let_def admitted_def)
  note table = sample_table [of "lit ''aaaa''" LEADER]
  obtain c where c: "session_change ?a 7 = Some c"
    using announcement [OF table disjI2 [OF refl] refl, of 7]
    unfolding session_change_def a by (auto simp: NewMulticastSessionChangeMessage_def)
  obtain i where i: "peer_info ?a 7 = Some i"
    using announcement [OF table disjI1 [OF refl] refl, of 7]
    unfolding peer_info_def a by (auto simp: NewPeerInfoMessage_eq)
  have "session_change ?a 7 = Some (u_Message (zero_umessage\<lparr>u_Message := c\<rparr>))"
    "peer_info ?a 7 = Some (u_Message (zero_umessage\<lparr>u_Message := i\<rparr>))"
    using c i by simp_all
  from join_gives_one_session [OF sample_table three_ids_facts(2) _ not_quit _ not_quit _ not_quit _ this,
      of "lit ''bbbb''" FOLLOWER "lit ''cccc''" BECOME_FOLLOWER]
  show ?thesis using three_ids_facts(4-6) by (fastforce simp: sample_server_def)
qed

text \<open>An ElectionVictory message makes its sender the leader of every node that delivers it, whatever
  the identifiers. A follower or a node in an election also goes to FOLLOWER; a leader only forgets
  that it is the leader: it stays in the state LEADER, with its beacon, under another leader's
  name.\<close>

lemma victory_is_believed:
  assumes "mc_UUID msg \<noteq> sv_id s" "Decode (mc_Message msg) = Inr d" "m_Type d = ElectionVictory"
  shows "\<exists>s' effs. dispatch_multicast s msg = Some (s', effs) \<and> sv_leaderID s' = mc_UUID msg \<and>
    (if sv_state s \<in> {FOLLOWER, ELECTION} \<and> allowed (sv_sm s) FOLLOWER
     then sv_sm s' = FOLLOWER \<and> (\<exists>a. effs = [Run_Action a no_args] \<and> endpoints a = (sv_sm s, FOLLOWER))
     else sv_sm s' = sv_sm s \<and> effs = [])"
proof -
  have d: "dispatch_multicast s msg =
      (if sv_state s = FOLLOWER \<or> sv_state s = ELECTION
       then Some (sm_ChangeTo (s\<lparr>sv_leaderID := mc_UUID msg\<rparr>) FOLLOWER no_args)
       else Some (s\<lparr>sv_leaderID := mc_UUID msg\<rparr>, []))"
    using assms by (simp add: dispatch_multicast_def Let_def message_types)
  show ?thesis
  proof (cases "ChangeTo (sv_sm s) FOLLOWER")
    case (Pair st act)
    have st: "st = (if allowed (sv_sm s) FOLLOWER then FOLLOWER else sv_sm s)"
      "allowed (sv_sm s) FOLLOWER = (act \<noteq> None)" "\<And>a. act = Some a \<Longrightarrow> endpoints a = (sv_sm s, FOLLOWER)"
      using ChangeTo_state [of "sv_sm s" FOLLOWER] ChangeTo_action [of "sv_sm s" FOLLOWER] Pair
      by (auto simp: allowed_def)
    show ?thesis
      unfolding d using st Pair by (cases act) (auto simp: sm_ChangeTo_def)
  qed
qed

lemma victory_is_believed_witness:
  "\<exists>s' effs. dispatch_multicast (sample_server (lit ''bbbb'') LEADER)
       (zero_mmessage\<lparr>mc_UUID := lit ''aaaa'', mc_Message := [3]\<rparr>) = Some (s', effs) \<and>
     sv_leaderID s' = lit ''aaaa'' \<and> sv_sm s' = LEADER \<and> effs = []"
proof -
  have "mc_UUID (zero_mmessage\<lparr>mc_UUID := lit ''aaaa'', mc_Message := [3]\<rparr>) \<noteq>
      sv_id (sample_server (lit ''bbbb'') LEADER)"
    by (simp add: sample_server_def zero_mmessage_def lit_def)
  moreover have "Decode (mc_Message (zero_mmessage\<lparr>mc_UUID := lit ''aaaa'', mc_Message := [3]\<rparr>)) =
      Inr (typed_message ElectionVictory)"
    by (simp add: Decode_def codec_simps message_types Let_def)
  ultimately show ?thesis
    using victory_is_believed [of "zero_mmessage\<lparr>mc_UUID := lit ''aaaa'', mc_Message := [3]\<rparr>"]
    by (fastforce simp: sample_server_def typed_message_def)
qed

end
