(* ===== verification/ServerStates.thy ===== *)
theory ServerStates
  imports ServerDispatch
begin

text \<open>
  What the server does in each state: the actions of the transitions and the main loop
  (\<^verbatim>\<open>server/server.go\<close>), the leader's and the follower's monitors and the election
  (\<^verbatim>\<open>server/state_listener.go\<close>), and the heartbeats (\<^verbatim>\<open>server/heartbeat.go\<close>). Times are in
  milliseconds. A method that blocks is cut where it does, and what it waited for is an argument
  of the second part.
\<close>

section \<open>Actions\<close>

text \<open>\<open>StartToInit\<close> and \<open>BecomeFollowerToInit\<close> after the listening period with its result.\<close>

definition after_listening :: "Server \<Rightarrow> BMessage option \<Rightarrow> Server \<times> effect list" where
  "after_listening s found =
     (case found of
        None \<Rightarrow> sm_ChangeTo s LEADER no_args
      | Some msg \<Rightarrow> sm_ChangeTo s BECOME_FOLLOWER \<lparr>smm_Broadcast = Some msg, smm_Unicast = None\<rparr>)"

text \<open>
  \<open>InitToBecomeFollower\<close>: first the request to the broadcaster (a nil pointer panics), then, when
  it was acknowledged, the wait for the peer table.
\<close>

definition ask_leader :: "StateMachineMessage \<Rightarrow> effect list option" where
  "ask_leader args =
     (case smm_Broadcast args of
        None \<Rightarrow> None
      | Some b \<Rightarrow> Some [To_stateChan BECOME_FOLLOWER, Unicast_To (bc_IP b) (bc_UUID b) NewConnectToLeaderMessage])"

definition asked_leader ::
  "Server \<Rightarrow> BMessage \<Rightarrow> bool \<Rightarrow> UMessage option \<Rightarrow> (Server \<times> effect list) option" where
  "asked_leader s leader sent peerInfo =
     (if \<not> sent then Some (sm_ChangeTo s INIT no_args)
      else
        (case peerInfo of
           None \<Rightarrow> Some (sm_ChangeTo s INIT no_args)
         | Some info \<Rightarrow>
             (case addPeersFromPeerInfo (s\<lparr>sv_leaderID := bc_UUID leader\<rparr>) info of
                None \<Rightarrow> None
              | Some s1 \<Rightarrow>
                  Some (sm_ChangeTo s1 FOLLOWER \<lparr>smm_Broadcast = None, smm_Unicast = Some info\<rparr>))))"

definition become_follower :: "Server \<Rightarrow> StateMachineMessage \<Rightarrow> (Server \<times> effect list) option" where
  "become_follower s args =
     (case smm_Unicast args of None \<Rightarrow> None | Some info \<Rightarrow> joinMulticastFromPeerInfo s info)"

definition leader_to_init :: "Server \<Rightarrow> StateMachineMessage \<Rightarrow> Server \<times> effect list" where
  "leader_to_init s args =
     sm_ChangeTo s BECOME_FOLLOWER \<lparr>smm_Broadcast = smm_Broadcast args, smm_Unicast = None\<rparr>"

definition announce_victory :: "Server \<Rightarrow> gostring list \<Rightarrow> (Server \<times> effect list) option" where
  "announce_victory s ks =
     (case NewElectionVictoryMessage of
        None \<Rightarrow> None
      | Some data \<Rightarrow>
          (case SendMessage (sv_rm s) ks data of
             None \<Rightarrow> None
           | Some (rm, enc, frame) \<Rightarrow>
               (case sm_ChangeTo (s\<lparr>sv_rm := rm\<rparr>) LEADER no_args of
                  (s1, effs) \<Rightarrow> Some (s1, Retransmit enc frame # effs))))"

text \<open>The state every action sends to the main loop before it does anything else.\<close>

definition announced_state :: "Action \<Rightarrow> State" where
  "announced_state a = (case a of
     StartToInit \<Rightarrow> INIT | InitToBecomeFollower \<Rightarrow> BECOME_FOLLOWER | InitToLeader \<Rightarrow> LEADER
   | BecomeFollowerToInit \<Rightarrow> INIT | BecomeFollowerToFollower \<Rightarrow> FOLLOWER | LeaderToInit \<Rightarrow> INIT
   | FollowerToElection \<Rightarrow> ELECTION | FollowerToFollower \<Rightarrow> FOLLOWER
   | BecomeLeaderToLeader \<Rightarrow> LEADER | ElectionToFollower \<Rightarrow> FOLLOWER
   | ElectionToBecomeLeader \<Rightarrow> BECOME_LEADER | ElectionToElection \<Rightarrow> ELECTION)"

section \<open>The election\<close>

text \<open>
  \<open>ELectionStateStart\<close>, in its three parts: the messages to all peers with a higher identifier
  (\<open>ks\<close> is the order of the peers); the first look at the answers; and the second one.
\<close>

definition higher_peers :: "Server \<Rightarrow> gostring list \<Rightarrow> gostring list" where
  "higher_peers s ks = filter (\<lambda>uuid. uuid \<noteq> sv_id s \<and> sv_id s < uuid) ks"

definition election_start :: "Server \<Rightarrow> gostring list \<Rightarrow> Server \<times> effect list" where
  "election_start s ks =
     (s\<lparr>sv_electionMap := fold (\<lambda>uuid. fmupd uuid False) (higher_peers s ks) fmempty\<rparr>,
      map (\<lambda>uuid. Unicast_To (map_get [] (sv_peers s) uuid) uuid NewElectionMessage) (higher_peers s ks))"

text \<open>A goroutine whose message was acknowledged.\<close>

definition election_reply :: "Server \<Rightarrow> gostring \<Rightarrow> Server" where
  "election_reply s uuid = s\<lparr>sv_electionMap := fmupd uuid True (sv_electionMap s)\<rparr>"

definition anyone_alive :: "Server \<Rightarrow> bool" where
  "anyone_alive s \<longleftrightarrow> \<not> fmpred (\<lambda>uuid rcvd. \<not> rcvd) (sv_electionMap s)"

text \<open>The result of the first look: the server, its effects, and whether it waits for the second look.\<close>

definition election_check :: "Server \<Rightarrow> Server \<times> effect list \<times> bool" where
  "election_check s =
     (if sv_state s \<noteq> ELECTION then (s, [], False)
      else if anyone_alive s then (s, [], True)
      else (case sm_ChangeTo s BECOME_LEADER no_args of (s', effs) \<Rightarrow> (s', effs, False)))"

definition election_recheck :: "Server \<Rightarrow> Server \<times> effect list" where
  "election_recheck s =
     (if sv_state s = ELECTION then sm_ChangeTo s ELECTION no_args else (s, []))"

section \<open>The main loop\<close>

text \<open>
  \<open>Run\<close> for a new state: the old listener stops, which closes its quit channel and ends a leader's
  beacon; the new one starts. The listener of START was never started, so its quit channel is nil;
  every other one has a channel, which its goroutines set to nil only after it was closed.
  (The election, which the loop runs before it takes the next state, is in the section above.)
\<close>

definition stop_listener :: "Server \<Rightarrow> (Server \<times> effect list) outcome" where
  "stop_listener s =
     (let quits = (if sv_listener s = START then [] else [Close_Quit (sv_listener s)]) in
      if sv_listener s = LEADER
      then bind_outcome (Stop (sv_broadcaster s)) (\<lambda>b. Returns (s\<lparr>sv_broadcaster := b\<rparr>, quits))
      else Returns (s, quits))"

definition start_listener :: "Server \<Rightarrow> gostring list \<Rightarrow> (Server \<times> effect list) outcome" where
  "start_listener s ks =
     (case sv_listener s of
        INIT \<Rightarrow> Returns (s\<lparr>sv_leaderID := []\<rparr>, [])
      | LEADER \<Rightarrow> bind_outcome (Start (sv_broadcaster s))
                    (\<lambda>b. Returns (s\<lparr>sv_leaderID := sv_id s, sv_broadcaster := b\<rparr>, []))
      | FOLLOWER \<Rightarrow> Returns (s, [Start_Heartbeat (map_get [] (sv_peers s) (sv_leaderID s))])
      | ELECTION \<Rightarrow> Returns (election_start s ks)
      | _ \<Rightarrow> Returns (s, []))"

definition main_loop :: "Server \<Rightarrow> State \<Rightarrow> gostring list \<Rightarrow> (Server \<times> effect list) outcome" where
  "main_loop s newState ks =
     bind_outcome (stop_listener s)
       (\<lambda>(s, quits).
          bind_outcome (start_listener (s\<lparr>sv_state := newState, sv_listener := newState\<rparr>) ks)
            (\<lambda>(s, effs). Returns (s, quits @ effs)))"

section \<open>Heartbeats and monitors\<close>

text \<open>
  The heartbeat listener reads every datagram into the same 36 bytes and takes all of them for the
  identifier, however many bytes came: a shorter datagram leaves the end of the one before.
  \<open>parses\<close> stands for \<open>uuid.Parse\<close> without an error.
\<close>

definition heartbeat_datagram :: "(gostring \<Rightarrow> bool) \<Rightarrow> bytes \<Rightarrow> bytes \<Rightarrow> bytes \<times> gostring option" where
  "heartbeat_datagram parses buf datagram =
     (let buf = take 36 datagram @ drop (length (take 36 datagram)) buf in
      (buf, if parses buf then Some buf else None))"

text \<open>
  The leader's monitor: when each peer was last heard of. A tick walks the peers in an order \<open>ks\<close>;
  it stops at the first one it has never heard of, which it notes; it declares dead the ones
  before that were silent for more than a second.
\<close>

fun monitor_tick ::
  "gostring \<Rightarrow> nat \<Rightarrow> gostring list \<Rightarrow> (gostring, nat) fmap \<Rightarrow> (gostring, nat) fmap \<times> gostring list" where
  "monitor_tick self now [] heard = (heard, [])"
| "monitor_tick self now (uuid # ks) heard =
     (if uuid = self then monitor_tick self now ks heard
      else
        (case fmlookup heard uuid of
           None \<Rightarrow> (fmupd uuid now heard, [])
         | Some lastHB \<Rightarrow>
             (case monitor_tick self now ks heard of
                (heard', dead) \<Rightarrow> (heard', if now - lastHB > 1000 then uuid # dead else dead))))"

definition monitor_start :: "gostring \<Rightarrow> nat \<Rightarrow> gostring list \<Rightarrow> (gostring, nat) fmap" where
  "monitor_start self now ks = fold (\<lambda>uuid. fmupd uuid now) (filter (\<lambda>uuid. uuid \<noteq> self) ks) fmempty"

definition monitor_heartbeat :: "(gostring, nat) fmap \<Rightarrow> nat \<Rightarrow> gostring \<Rightarrow> (gostring, nat) fmap" where
  "monitor_heartbeat heard now uuid = fmupd uuid now heard"

text \<open>The leader's other goroutine: another broadcaster, and the forwarded unicast messages.\<close>

definition leader_broadcast :: "Server \<Rightarrow> BMessage \<Rightarrow> Server \<times> effect list" where
  "leader_broadcast s msg =
     (if bc_UUID msg < sv_id s then (s, [])
      else sm_ChangeTo s INIT \<lparr>smm_Broadcast = Some msg, smm_Unicast = None\<rparr>)"

datatype leader_reaction = Admit gostring gostring | Changed Server "effect list" | Ignored

definition leader_umsg :: "Server \<Rightarrow> UMessage \<Rightarrow> leader_reaction option" where
  "leader_umsg s msg =
     (case Decode (u_Message msg) of
        Inl e \<Rightarrow> None
      | Inr uMsg \<Rightarrow>
          if m_Type uMsg = ConnectToLeader then Some (Admit (u_FromUUID msg) (u_IP msg))
          else if m_Type uMsg = ElectionVictory then
            (case sm_ChangeTo s FOLLOWER \<lparr>smm_Broadcast = None, smm_Unicast = Some msg\<rparr> of
               (s', effs) \<Rightarrow> Some (Changed s' effs))
          else Some Ignored)"

text \<open>
  The follower's monitor of the leader it started with: a tick long after the leader's last beacon
  asks for an election, unless there is a new leader by now. The flag says whether the monitor
  goes on.
\<close>

definition follower_tick :: "Server \<Rightarrow> gostring \<Rightarrow> nat \<Rightarrow> nat \<Rightarrow> Server \<times> effect list \<times> bool" where
  "follower_tick s leaderID lastHeartBeat now =
     (if now - lastHeartBeat > 500 then
        (if sv_leaderID s = leaderID
         then (case sm_ChangeTo s ELECTION no_args of (s', effs) \<Rightarrow> (s', effs, False))
         else (s, [], False))
      else (s, [], True))"

definition follower_beacon :: "gostring \<Rightarrow> nat \<Rightarrow> nat \<Rightarrow> BMessage \<Rightarrow> nat" where
  "follower_beacon leaderID lastHeartBeat now msg =
     (if bc_UUID msg = leaderID then now else lastHeartBeat)"

section \<open>Facts\<close>

text \<open>Every action announces the state that its transition leads to.\<close>

lemma announced_endpoint: "announced_state a = snd (endpoints a)"
  by (cases a) (simp_all add: announced_state_def)

lemma higher_peers_mem:
  "range_order ks (sv_peers s) \<Longrightarrow>
     u \<in> set (higher_peers s ks) \<longleftrightarrow> fmlookup (sv_peers s) u \<noteq> None \<and> sv_id s < u"
  by (auto simp: higher_peers_def range_order_mem)

lemma isHighestID_higher_peers:
  "range_order ks (sv_peers s) \<Longrightarrow> isHighestID s \<longleftrightarrow> higher_peers s ks = []"
  using range_order_mem [of ks "sv_peers s"]
  by (fastforce simp: isHighestID_def higher_peers_def fmpred_iff filter_empty_conv)

lemma fold_map_get: "fmlookup (fold (\<lambda>u. fmupd u v) us m) k = (if k \<in> set us then Some v else fmlookup m k)"
  by (induction us arbitrary: m) auto

lemma replies_map:
  "fmlookup (sv_electionMap (foldl election_reply s rs)) u =
     (if u \<in> set rs then Some True else fmlookup (sv_electionMap s) u)"
  by (induction rs arbitrary: s) (auto simp: election_reply_def)

lemma replies_keep [simp]:
  "sv_state (foldl election_reply s rs) = sv_state s" "sv_sm (foldl election_reply s rs) = sv_sm s"
  by (induction rs arbitrary: s) (simp_all add: election_reply_def)

lemma anyone_alive_replies:
  "anyone_alive (foldl election_reply (fst (election_start s ks)) rs) \<longleftrightarrow> rs \<noteq> []"
proof -
  have "fmlookup (sv_electionMap (foldl election_reply (fst (election_start s ks)) rs)) u = Some True \<longleftrightarrow> u \<in> set rs" for u
    by (simp add: replies_map election_start_def fold_map_get)
  then show ?thesis by (auto simp: anyone_alive_def fmpred_iff) (metis list.set_intros(1) neq_Nil_conv)
qed

lemma monitor_tick_eq:
  "monitor_tick self now ks heard =
     (let seen = (\<lambda>u. u = self \<or> fmlookup heard u \<noteq> None) in
      (case dropWhile seen ks of [] \<Rightarrow> heard | u # us \<Rightarrow> fmupd u now heard,
       filter (\<lambda>u. u \<noteq> self \<and> now - map_get 0 heard u > 1000) (takeWhile seen ks)))"
proof (induction ks)
  case (Cons u ks)
  then show ?case by (cases "fmlookup heard u") (auto simp: Let_def)
qed simp

lemma election_state [simp]:
  "sv_state (fst (election_start s ks)) = sv_state s" "sv_sm (fst (election_start s ks)) = sv_sm s"
  by (simp_all add: election_start_def)

text \<open>
  A datagram of no bytes repeats the heartbeat in the buffer; a full one is taken for what it is.
\<close>

lemma heartbeat_of_nothing:
  "heartbeat_datagram parses buf [] = (buf, if parses buf then Some buf else None)"
  by (simp add: heartbeat_datagram_def)

lemma heartbeat_full:
  "length buf = 36 \<Longrightarrow> length datagram = 36 \<Longrightarrow>
   heartbeat_datagram parses buf datagram = (datagram, if parses datagram then Some datagram else None)"
  by (simp add: heartbeat_datagram_def)

text \<open>
  A follower that is sent to a session on the port it already has keeps the session that it has just
  shut down, and every session change after that panics.
\<close>

lemma same_port_then_change_panics:
  assumes "Decode (u_Message info) = Inr d" "m_MulticastPort d = sv_rmPort s"
    and "length (m_PeerIds d) \<le> length (m_PeerIps d)" "\<not> rm_quit (sv_rm s)"
    and "Decode (u_Message change) = Inr c" "m_Type c = MulticastSessionChange"
  shows "\<exists>s'. joinMulticastFromPeerInfo s info = Some (s', []) \<and> rm_quit (sv_rm s') \<and>
    dispatch_unicast s' change = None"
proof -
  obtain peers where "add_peers (m_PeerIds d) (m_PeerIps d) fmempty = Some peers"
    using add_peers_total assms(3) by fastforce
  then show ?thesis
    using assms
    by (auto simp: joinMulticastFromPeerInfo_def Shutdown_def dispatch_unicast_def enter_session_def Let_def
        split: option.splits)
qed

section \<open>Properties\<close>

text \<open>C17: the bully election. A server in an election writes to exactly the peers with a higher identifier.
  If none of them has acknowledged by the first look, it goes on to become leader; that is always so
  for the server with the highest identifier, which writes to nobody. If one has, it waits, and starts
  over when it is still in the election at the second look.\<close>

theorem election_outcome:
  assumes "range_order ks (sv_peers s)" "sv_state s = ELECTION" "sv_sm s = ELECTION"
    and "set rs \<subseteq> set (higher_peers s ks)"
  defines "s1 \<equiv> foldl election_reply (fst (election_start s ks)) rs"
  shows "snd (election_start s ks) =
      map (\<lambda>u. Unicast_To (map_get [] (sv_peers s) u) u NewElectionMessage) (higher_peers s ks) \<and>
    set (higher_peers s ks) = {u. fmlookup (sv_peers s) u \<noteq> None \<and> sv_id s < u} \<and>
    (if rs = []
     then election_check s1 = (s1\<lparr>sv_sm := BECOME_LEADER\<rparr>, [Run_Action ElectionToBecomeLeader no_args], False)
     else \<not> isHighestID s \<and> election_check s1 = (s1, [], True) \<and>
       election_recheck s1 = (s1, [Run_Action ElectionToElection no_args]))"
proof -
  have alive: "anyone_alive s1 \<longleftrightarrow> rs \<noteq> []"
    unfolding s1_def by (rule anyone_alive_replies)
  have s1: "sv_state s1 = ELECTION" "sv_sm s1 = ELECTION"
    using assms(2,3) by (simp_all add: s1_def)
  have "rs \<noteq> [] \<Longrightarrow> \<not> isHighestID s"
    using assms(4) isHighestID_higher_peers [OF assms(1)] by auto
  moreover have "s1\<lparr>sv_sm := ELECTION\<rparr> = s1" using s1(2) by simp
  ultimately show ?thesis
    using higher_peers_mem [OF assms(1)] alive s1
    by (auto simp: election_start_def election_check_def election_recheck_def sm_ChangeTo_def
        ChangeTo_def transitions_def)
qed

theorem election_outcome_witness:
  "(let s = sample_server (lit ''bbbb'') ELECTION; s1 = fst (election_start s [lit ''bbbb'', lit ''aaaa'']) in
    snd (snd (election_check s1)) = False \<and> fst (snd (election_check s1)) = [Run_Action ElectionToBecomeLeader no_args])"
proof -
  have ord: "range_order [lit ''bbbb'', lit ''aaaa''] (sv_peers (sample_server (lit ''bbbb'') ELECTION))"
    by (auto simp: range_order_def sample_server_def lit_def)
  show ?thesis
    unfolding Let_def using election_outcome [OF ord, of "[]"] by (simp add: sample_server_def)
qed

text \<open>C40: a tick of the leader's monitor. The peers it declares dead are those heard of more than a second
  ago among the ones that come before the first peer it has never heard of; that one it notes as heard
  of now. So nobody is declared dead who was heard of within the last second, and never the leader
  itself.\<close>

theorem monitor_tick_finds_dead:
  "monitor_tick self now ks heard =
     (let seen = (\<lambda>u. u \<in> insert self (fset (fmdom heard))) in
      (case dropWhile seen ks of [] \<Rightarrow> heard | u # us \<Rightarrow> fmupd u now heard,
       filter (\<lambda>u. u \<noteq> self \<and> now - map_get 0 heard u > 1000) (takeWhile seen ks)))"
proof -
  have "(\<lambda>u. u \<in> insert self (fset (fmdom heard))) = (\<lambda>u. u = self \<or> fmlookup heard u \<noteq> None)"
    by (auto simp: fun_eq_iff fmlookup_dom_iff)
  then show ?thesis using monitor_tick_eq by simp
qed

end
