(* ===== verification/Chat.thy ===== *)
theory Chat
  imports ServerStates
begin

text \<open>
  The chat itself: the client program (\<^verbatim>\<open>client/client.go\<close>) and the server's side of its
  connections (\<^verbatim>\<open>server/client.go\<close>): lines on a TCP stream, the redirection by a leader, and what a
  client shows.
\<close>

section \<open>Lines\<close>

text \<open>
  \<open>bufio.Scanner\<close> with its default split function: the lines of the stream without their newline and
  without a carriage return before it; bytes after the last newline are a line as well, if there
  are any. The scanner's buffer has at most \<open>MaxScanTokenSize\<close> bytes: when it is full and holds no
  newline, the scanner stops with an error and yields no further line, whatever else the stream
  has. 10, 13 and 58 are newline, carriage return and colon.
\<close>

definition MaxScanTokenSize :: nat where
  "MaxScanTokenSize = 65536"

definition drop_cr :: "bytes \<Rightarrow> bytes" where
  "drop_cr l = (if l \<noteq> [] \<and> last l = 13 then butlast l else l)"

fun scan_from :: "bytes \<Rightarrow> bytes \<Rightarrow> gostring list" where
  "scan_from acc [] = (if acc = [] then [] else [drop_cr acc])"
| "scan_from acc (b # bs) =
     (if b = 10 then drop_cr acc # scan_from [] bs
      else if MaxScanTokenSize \<le> Suc (length acc) then []
      else scan_from (acc @ [b]) bs)"

definition scan_lines :: "bytes \<Rightarrow> gostring list" where
  "scan_lines stream = scan_from [] stream"

text \<open>\<open>strings.SplitN(text, ":", 2)\<close>: the text before and after the first colon, or \<open>None\<close> without one.\<close>

fun split_colon :: "gostring \<Rightarrow> (gostring \<times> gostring) option" where
  "split_colon [] = None"
| "split_colon (b # bs) =
     (if b = 58 then Some ([], bs)
      else map_option (\<lambda>(l, r). (b # l, r)) (split_colon bs))"

section \<open>The client\<close>

text \<open>
  \<open>net.ParseIP\<close> on a text without a colon is the parser for dotted addresses: four fields of digits,
  none above 255, none with a leading zero. The arguments are the fields done, the value and the
  number of digits of the current one. 46 is the dot, 48 to 57 are the digits.
\<close>

fun parse_ipv4 :: "nat \<Rightarrow> nat \<Rightarrow> nat \<Rightarrow> gostring \<Rightarrow> bool" where
  "parse_ipv4 pos val digits [] = (pos = 3 \<and> 0 < digits)"
| "parse_ipv4 pos val digits (b # bs) =
     (if 48 \<le> b \<and> b \<le> 57 then
        (if digits = 1 \<and> val = 0 then False
         else
           let val' = val * 10 + (unat b - 48) in
           if 255 < val' then False else parse_ipv4 pos val' (digits + 1) bs)
      else if b = 46 then
        (if digits = 0 \<or> pos = 3 then False else parse_ipv4 (pos + 1) 0 0 bs)
      else False)"

definition ParseIP4 :: "gostring \<Rightarrow> bool" where
  "ParseIP4 text = parse_ipv4 0 0 0 text"

text \<open>What the client does with one line: shows it, or takes it for the address of another server.\<close>

datatype shown = Said gostring gostring | Plain gostring | Redirected gostring

definition client_line :: "gostring \<Rightarrow> shown" where
  "client_line text =
     (case split_colon text of
        Some (name, msg) \<Rightarrow> Said name msg
      | None \<Rightarrow> if ParseIP4 text then Redirected text else Plain text)"

text \<open>
  \<open>listen\<close>: the lines shown until the first redirection, and the address it returns, the empty one
  at the end of the stream.
\<close>

fun client_listen :: "gostring list \<Rightarrow> shown list \<times> gostring" where
  "client_listen [] = ([], [])"
| "client_listen (text # rest) =
     (case client_line text of
        Redirected ip \<Rightarrow> ([Redirected ip], ip)
      | s \<Rightarrow> (case client_listen rest of (shows, ip) \<Rightarrow> (s # shows, ip)))"

definition sendMessageToServer :: "gostring \<Rightarrow> gostring \<Rightarrow> bytes" where
  "sendMessageToServer username input = username @ lit '':'' @ input @ [10]"

text \<open>\<open>chat\<close> sends every line of the terminal but the empty ones.\<close>

definition chat_input :: "gostring \<Rightarrow> gostring \<Rightarrow> bytes" where
  "chat_input username input = (if input = [] then [] else sendMessageToServer username input)"

section \<open>The server's connections\<close>

record ClientServer =
  cs_ip :: gostring
  cs_clients :: "nat list"

text \<open>A connection is a number. What becomes of a new one.\<close>

datatype accept_result = Refused | Redirect bytes | Serve

text \<open>
  \<open>Start\<close> for one accepted connection: the state of the server, the number of its peers and the
  address of a random peer. A leader logs the first four bytes of both addresses, and panics for
  a shorter one.
\<close>

definition accept_conn :: "ClientServer \<Rightarrow> State \<Rightarrow> nat \<Rightarrow> gostring \<Rightarrow> accept_result option" where
  "accept_conn s state n randomPeer =
     (if state \<noteq> LEADER \<and> state \<noteq> FOLLOWER then Some Refused
      else if state = LEADER then
        (if length randomPeer < 4 \<or> length (cs_ip s) < 4 then None
         else if 1 < n \<and> randomPeer \<noteq> cs_ip s then Some (Redirect randomPeer)
         else Some Serve)
      else Some Serve)"

definition addClient :: "ClientServer \<Rightarrow> nat \<Rightarrow> ClientServer" where
  "addClient s conn = s\<lparr>cs_clients := cs_clients s @ [conn]\<rparr>"

definition removeClient :: "ClientServer \<Rightarrow> nat \<Rightarrow> ClientServer \<times> bool" where
  "removeClient s conn = (s\<lparr>cs_clients := remove1 conn (cs_clients s)\<rparr>, conn \<in> set (cs_clients s))"

definition sendMessageToConnectedClients :: "ClientServer \<Rightarrow> gostring \<Rightarrow> (nat \<times> bytes) list" where
  "sendMessageToConnectedClients s msg = map (\<lambda>c. (c, msg @ [10])) (cs_clients s)"

text \<open>
  \<open>handleConn\<close>: every line of the connection goes to \<open>clientMsgChan\<close>, for the multicast, and to
  \<open>applicationMsgChan\<close>, for the clients of this server.
\<close>

definition handleConn :: "bytes \<Rightarrow> gostring list \<times> gostring list" where
  "handleConn stream = (scan_lines stream, scan_lines stream)"

section \<open>Facts\<close>

lemma scan_from_line:
  "10 \<notin> set l \<Longrightarrow> length acc + length l < MaxScanTokenSize \<Longrightarrow>
     scan_from acc (l @ 10 # rest) = drop_cr (acc @ l) # scan_from [] rest"
  by (induction l arbitrary: acc) auto

lemma scan_from_end:
  "10 \<notin> set l \<Longrightarrow> length acc + length l < MaxScanTokenSize \<Longrightarrow>
     scan_from acc l = (if acc @ l = [] then [] else [drop_cr (acc @ l)])"
  by (induction l arbitrary: acc) auto

text \<open>A line that fits the buffer, and one that does not.\<close>

definition scannable :: "bytes \<Rightarrow> bool" where
  "scannable l \<longleftrightarrow> 10 \<notin> set l \<and> last l \<noteq> 13 \<and> length l < MaxScanTokenSize"

lemma scan_lines_line: "scannable l \<Longrightarrow> scan_lines (l @ 10 # rest) = l # scan_lines rest"
  by (simp add: scan_lines_def scan_from_line drop_cr_def scannable_def)

lemma scan_from_long:
  "10 \<notin> set l \<Longrightarrow> l \<noteq> [] \<Longrightarrow> MaxScanTokenSize \<le> length acc + length l \<Longrightarrow> scan_from acc (l @ rest) = []"
proof (induction l arbitrary: acc)
  case (Cons b l)
  then show ?case by (cases "l = []") auto
qed simp

lemma long_line_ends_scan:
  assumes "10 \<notin> set l" "MaxScanTokenSize \<le> length l" shows "scan_lines (l @ rest) = []"
  using scan_from_long [of l "[]" rest] assms by (cases "l = []") (simp_all add: scan_lines_def MaxScanTokenSize_def)

lemma scan_lines_all: "list_all scannable ls \<Longrightarrow> scan_lines (concat (map (\<lambda>l. l @ [10]) ls)) = ls"
  by (induction ls) (simp_all add: scan_lines_line scan_lines_def [of "[]"])

lemma split_colon_append: "58 \<notin> set l \<Longrightarrow> split_colon (l @ 58 # r) = Some (l, r)"
  by (induction l) auto

lemma split_colon_None: "split_colon l = None \<longleftrightarrow> 58 \<notin> set l"
  by (induction l) auto

lemma client_line_Said:
  assumes "client_line l = Said name msg" shows "l = name @ 58 # msg"
proof -
  have "split_colon l = Some (name, msg) \<Longrightarrow> l = name @ 58 # msg"
    by (induction l arbitrary: name) (auto split: if_splits)
  then show ?thesis
    using assms by (auto simp: client_line_def split: option.splits if_splits)
qed

text \<open>A line is taken for a redirection only if it is made of digits and dots.\<close>

lemma parse_ipv4_chars: "parse_ipv4 pos val digits bs \<Longrightarrow> b \<in> set bs \<Longrightarrow> b = 46 \<or> 48 \<le> b \<and> b \<le> 57"
  by (induction pos val digits bs rule: parse_ipv4.induct) (auto simp: Let_def split: if_splits)

text \<open>A dotted address has at most four fields of at most three digits.\<close>

lemma parse_ipv4_length:
  "parse_ipv4 pos val digits bs \<Longrightarrow> val \<le> 255 \<Longrightarrow> pos \<le> 3 \<Longrightarrow>
     (if val = 0 then digits \<le> 1 else 10 ^ (digits - 1) \<le> val) \<Longrightarrow> length bs + digits \<le> 3 + 4 * (3 - pos)"
proof (induction pos val digits bs rule: parse_ipv4.induct)
  case (1 pos val digits)
  have "digits \<le> 3"
  proof (rule ccontr)
    assume "\<not> digits \<le> 3"
    then have "(10::nat) ^ 3 \<le> 10 ^ (digits - 1)" by (intro power_increasing) simp_all
    then show False using 1 \<open>\<not> digits \<le> 3\<close> by (auto split: if_splits)
  qed
  then show ?case using 1 by simp
next
  case (2 pos val digits b bs)
  have d3: "digits \<le> 3"
  proof (rule ccontr)
    assume "\<not> digits \<le> 3"
    then have "(10::nat) ^ 3 \<le> 10 ^ (digits - 1)" by (intro power_increasing) simp_all
    then show False using 2 \<open>\<not> digits \<le> 3\<close> by (auto split: if_splits)
  qed
  show ?case
  proof (cases "48 \<le> b \<and> b \<le> 57")
    case True
    let ?v = "val * 10 + (unat b - 48)"
    have p: "\<not> (digits = 1 \<and> val = 0)" "?v \<le> 255" "parse_ipv4 pos ?v (digits + 1) bs"
      using "2.prems"(1) True by (auto simp: Let_def split: if_splits)
    have "if ?v = 0 then digits + 1 \<le> 1 else 10 ^ (digits + 1 - 1) \<le> ?v"
    proof (cases "val = 0")
      case True
      then have "digits = 0" using p(1) "2.prems"(4) by (cases digits) auto
      then show ?thesis using True by auto
    next
      case False
      then show ?thesis using "2.prems"(4) by (cases digits) auto
    qed
    from "2.IH"(1) [OF True p(1) refl _ p(3,2) "2.prems"(3) this] p(2) show ?thesis by simp
  next
    case False
    then have p: "b = 46" "digits \<noteq> 0" "pos \<noteq> 3" "parse_ipv4 (pos + 1) 0 0 bs"
      using "2.prems"(1) by (auto split: if_splits)
    have "length bs + 0 \<le> 3 + 4 * (3 - (pos + 1))"
      by (rule "2.IH"(2) [OF False p(1) _ p(4)]) (use p "2.prems"(3) in simp_all)
    then show ?thesis using d3 p(3) "2.prems"(3) by simp
  qed
qed

lemma dotted_scannable: "ParseIP4 r \<Longrightarrow> scannable r \<and> 58 \<notin> set r \<and> r \<noteq> []"
proof -
  assume a: "ParseIP4 r"
  then have r: "r \<noteq> []" by (auto simp: ParseIP4_def)
  have chars: "\<And>b. b \<in> set r \<Longrightarrow> b = 46 \<or> 48 \<le> b \<and> b \<le> 57"
    using parse_ipv4_chars a by (simp add: ParseIP4_def)
  have "length r \<le> 15" using parse_ipv4_length [of 0 0 0 r] a by (simp add: ParseIP4_def)
  then show ?thesis
    using r chars [of 10] chars [of 58] chars [of "last r"] by (auto simp: scannable_def MaxScanTokenSize_def)
qed

lemma lit_colon [simp]: "lit '':'' = [58]"
  by (simp add: lit_def)

text \<open>A line that is a dotted address redirects every client that is sent it, whoever wrote it.\<close>

lemma injected_redirection:
  assumes "ParseIP4 r" "scannable r" "58 \<notin> set r"
  shows "handleConn (r @ [10]) = ([r], [r])" "client_listen (scan_lines (r @ [10])) = ([Redirected r], r)"
  using assms scan_lines_line [of r "[]"] split_colon_None [of r]
  by (simp_all add: handleConn_def client_line_def scan_lines_def)

section \<open>Redirection\<close>

text \<open>A server accepts a client only as a leader or a follower, and only a leader redirects,
  to an address other than its own; the client, which gets the address as the unfinished last line
  of its connection, then goes to exactly that address, when it is a dotted address.\<close>

lemma redirection:
  assumes "accept_conn s state n peer = Some (Redirect r)" "ParseIP4 r"
  shows "state = LEADER \<and> 1 < n \<and> r = peer \<and> r \<noteq> cs_ip s \<and>
    client_listen (scan_lines r) = ([Redirected r], r)"
proof -
  have acc: "state = LEADER" "1 < n" "r = peer" "r \<noteq> cs_ip s"
    using assms(1) by (auto simp: accept_conn_def split: if_splits)
  have "r \<noteq> []" "10 \<notin> set r" "58 \<notin> set r" "last r \<noteq> 13" "length r < MaxScanTokenSize"
    using dotted_scannable [OF assms(2)] by (simp_all add: scannable_def)
  then have "scan_lines r = [r]" "client_line r = Redirected r"
    using assms(2) split_colon_None [of r]
    by (simp_all add: scan_lines_def scan_from_end drop_cr_def client_line_def)
  then show ?thesis using acc by simp
qed

lemma redirection_witness:
  "\<exists>r. accept_conn \<lparr>cs_ip = lit ''10.0.0.1'', cs_clients = []\<rparr> LEADER 2 (lit ''10.0.0.2'') = Some (Redirect r) \<and>
     client_listen (scan_lines r) = ([Redirected r], lit ''10.0.0.2'')"
proof -
  have acc: "accept_conn \<lparr>cs_ip = lit ''10.0.0.1'', cs_clients = []\<rparr> LEADER 2 (lit ''10.0.0.2'') =
      Some (Redirect (lit ''10.0.0.2''))"
    by code_simp
  have "ParseIP4 (lit ''10.0.0.2'')" by code_simp
  from redirection [OF acc this] acc show ?thesis by simp
qed

end
