(* ===== verification/ChatRoom.thy ===== *)
theory ChatRoom
  imports CausalHistory Chat
begin

text \<open>
  The chat of all servers together: the session of \<open>CausalNetwork\<close>, with the lines that the servers
  multicast and the dispatchers that hand the delivered messages to the clients.
\<close>

section \<open>Lines\<close>

text \<open>
  What a message says to a chat client: the text of an application message. The empty line is sent
  as a blank.
\<close>

definition said :: "MMessage \<Rightarrow> gostring list" where
  "said x = (case Decode (mc_Message x) of
     Inl e \<Rightarrow> [] | Inr d \<Rightarrow> if m_Type d = Application then [m_Msg d] else [])"

definition sayings :: "MMessage list \<Rightarrow> gostring list" where
  "sayings xs = concat (map said xs)"

definition visible :: "gostring \<Rightarrow> gostring" where
  "visible line = (if line = [] then [32] else line)"

lemma sayings_simps [simp]:
  "sayings [] = []" "sayings (x # xs) = said x @ sayings xs" "sayings (xs @ ys) = sayings xs @ sayings ys"
  by (simp_all add: sayings_def)

lemma said_strip [simp]: "said (strip x) = said x"
  by (simp add: said_def strip_def)

lemma sayings_strip: "sayings (map strip xs) = sayings xs"
  by (induction xs) simp_all

text \<open>The lines that an operation put on \<open>applicationMsgChan\<close>.\<close>

definition app_lines :: "effect list \<Rightarrow> gostring list" where
  "app_lines effs = concat (map (\<lambda>e. case e of To_applicationMsgChan l \<Rightarrow> [l] | _ \<Rightarrow> []) effs)"

text \<open>The dispatcher passes on what a foreign message says, and nothing else.\<close>

lemma dispatch_says:
  "dispatch_multicast s x = Some (s', effs) \<Longrightarrow> mc_UUID x \<noteq> sv_id s \<Longrightarrow> app_lines effs = said x \<and> sv_id s' = sv_id s"
  by (auto simp: dispatch_multicast_def said_def app_lines_def sm_ChangeTo_def Let_def message_types
      split: sum.splits if_splits prod.splits option.splits)

lemma payload_says:
  assumes "chat_payload line = Some b" "length line < 2 ^ 32" "mc_Message x = b"
  shows "said x = [visible line]"
  using chat_payload_decodes [OF assms(2)] assms(1,3) by (auto simp: said_def visible_def)

text \<open>
  A line whose datagram, with the clock of a session of \<open>n\<close> members, fits the receive buffer. Nothing
  in the program keeps a user from typing a longer one, of which the receivers see a part.
\<close>

definition line_fits :: "nat \<Rightarrow> gostring \<Rightarrow> bool" where
  "line_fits n line \<longleftrightarrow> 57 + 40 * n + length (visible line) \<le> 1024"

lemma payload_length: "chat_payload line = Some b \<Longrightarrow> length b = 5 + length (visible line)"
  by (auto simp: chat_payload_def NewApplicationMessage_def visible_def lit_def Encode_def typed_message_def
      message_types codec_simps Let_def put_string_def split: if_splits)

lemma length_encode_multicast:
  "length (encodeMulticastMessage ks x) = 52 + 40 * length ks + length (mc_Message x)"
  by (simp add: encodeMulticastMessage_def length_put_clocks)

lemma line_fits_short: "line_fits n line \<Longrightarrow> length line < 2 ^ 32"
  by (auto simp: line_fits_def visible_def split: if_splits)

text \<open>So the datagram of a line that fits is carried.\<close>

lemma line_carried:
  assumes "multicast_line s ks line = Some (s', [Retransmit enc frame])" "chat_payload line = Some payload"
    and "line_fits (length ks) line"
  shows "SendMessage (sv_rm s) ks payload = Some (sv_rm s', enc, frame)" "carried payload enc"
proof -
  show send: "SendMessage (sv_rm s) ks payload = Some (sv_rm s', enc, frame)"
    using assms(1,2) by (auto simp: multicast_line_def split: if_splits option.splits prod.splits)
  have "enc = encodeMulticastMessage ks (sent_message (sv_rm s) payload (sv_rm s'))"
    using sent_encoding [OF send] .
  then have "length enc \<le> 1024"
    using payload_length [OF assms(2)] assms(3) by (simp add: length_encode_multicast line_fits_def sent_message_def)
  then show "carried payload enc"
    using chat_payload_decodes [OF line_fits_short [OF assms(3)]] assms(2) by (auto simp: carried_def message_types)
qed

section \<open>The room\<close>

text \<open>
  The multicast session, the server object of each member, how many messages of its log each
  dispatcher has handled, the lines each member multicast, and the lines each dispatcher handed to
  the connections, with the identifier of the sender for the record.
\<close>

record room =
  ro_session :: session
  ro_server :: "gostring \<Rightarrow> Server"
  ro_done :: "gostring \<Rightarrow> nat"
  ro_typed :: "gostring \<Rightarrow> gostring list"
  ro_shown :: "gostring \<Rightarrow> (gostring \<times> gostring) list"

definition room_init :: "gostring list \<Rightarrow> u32 \<Rightarrow> room \<Rightarrow> bool" where
  "room_init members port r \<longleftrightarrow> session_init members port (ro_session r) \<and>
     (\<forall>i \<in> set members. sv_id (ro_server r i) = i) \<and> ro_done r = (\<lambda>i. 0) \<and>
     ro_typed r = (\<lambda>i. []) \<and> ro_shown r = (\<lambda>i. [])"

text \<open>
  A member multicasts a line of any length; the session goes on, where messages other than chat lines
  may be sent; a dispatcher takes the next message of its member's log; a server changes in any other
  way.
\<close>

inductive room_step :: "gostring list \<Rightarrow> room \<Rightarrow> room \<Rightarrow> bool" for members where
  room_line: "i \<in> set members \<Longrightarrow> may_multicast (ro_server r i) \<Longrightarrow>
     multicast_line ((ro_server r i)\<lparr>sv_rm := ss_node (ro_session r) i\<rparr>) ks line = Some (s', [Retransmit enc frame]) \<Longrightarrow>
     range_order ks (rm_vectorClock (sv_rm s')) \<Longrightarrow> chat_payload line = Some payload \<Longrightarrow>
     room_step members r
       (r\<lparr>ro_session := (ro_session r)\<lparr>ss_node := (ss_node (ro_session r))(i := sv_rm s'),
            ss_sent := ss_sent (ro_session r) @ [sent_message (ss_node (ro_session r) i) payload (sv_rm s')],
            ss_wire := enc # ss_wire (ro_session r)\<rparr>,
          ro_typed := (ro_typed r)(i := ro_typed r i @ [line])\<rparr>)"
| room_session: "session_step members (ro_session r) t \<Longrightarrow>
     \<forall>x \<in> set (drop (length (ss_sent (ro_session r))) (ss_sent t)). said x = [] \<Longrightarrow>
     room_step members r (r\<lparr>ro_session := t\<rparr>)"
| room_dispatch: "i \<in> set members \<Longrightarrow> ro_done r i < length (ss_log (ro_session r) i) \<Longrightarrow>
     x = ss_log (ro_session r) i ! ro_done r i \<Longrightarrow> dispatch_multicast (ro_server r i) x = Some (s', effs) \<Longrightarrow>
     room_step members r
       (r\<lparr>ro_server := (ro_server r)(i := s'), ro_done := (ro_done r)(i := Suc (ro_done r i)),
          ro_shown := (ro_shown r)(i := ro_shown r i @ map (\<lambda>l. (mc_UUID x, l)) (app_lines effs))\<rparr>)"
| room_server: "sv_id s' = sv_id (ro_server r i) \<Longrightarrow> room_step members r (r\<lparr>ro_server := (ro_server r)(i := s')\<rparr>)"

definition shown_by :: "gostring \<Rightarrow> (gostring \<times> gostring) list \<Rightarrow> gostring list" where
  "shown_by p xs = map snd (filter (\<lambda>(q, l). q = p) xs)"

text \<open>All lines that were typed so far fit.\<close>

definition lines_fit :: "gostring list \<Rightarrow> room \<Rightarrow> bool" where
  "lines_fit members r \<longleftrightarrow> (\<forall>i \<in> set members. list_all (line_fits (card (set members))) (ro_typed r i))"

definition room_inv :: "gostring list \<Rightarrow> u32 \<Rightarrow> room \<Rightarrow> bool" where
  "room_inv members port r \<longleftrightarrow> (session_bound members (ro_session r) \<and> lines_fit members r \<longrightarrow>
       reach (session_init members port) (session_step members) (ro_session r) \<and>
       (\<forall>i \<in> set members. sv_id (ro_server r i) = i \<and> ro_done r i \<le> length (ss_log (ro_session r) i) \<and>
          sayings (by_sender i (ss_sent (ro_session r))) = map visible (ro_typed r i) \<and>
          (\<forall>p. p \<noteq> i \<longrightarrow> shown_by p (ro_shown r i) =
             sayings (by_sender p (take (ro_done r i) (ss_log (ro_session r) i))))))"

lemma shown_by_append [simp]: "shown_by p (xs @ ys) = shown_by p xs @ shown_by p ys"
  by (simp add: shown_by_def)

lemma shown_by_one [simp]: "shown_by p (map (\<lambda>l. (q, l)) ls) = (if q = p then ls else [])"
  by (induction ls) (auto simp: shown_by_def)

lemma step_log_grows: "session_step members s t \<Longrightarrow> \<exists>ms. ss_log t i = ss_log s i @ ms"
  by (induction rule: session_step.induct) auto

lemma step_sent_append:
  "session_step members s t \<Longrightarrow> ss_sent t = ss_sent s @ drop (length (ss_sent s)) (ss_sent t)"
  by (induction rule: session_step.induct) auto

lemma silent_sayings: "\<forall>x \<in> set xs. said x = [] \<Longrightarrow> sayings (by_sender p xs) = []"
  by (induction xs) auto


text \<open>The encoder walks one entry per member.\<close>

lemma clock_has_members:
  assumes "reach (session_init members port) (session_step members) s" "session_bound members s" "i \<in> set members"
    and "SendMessage (ss_node s i) ks payload = Some (m', enc, frame)" "range_order ks (rm_vectorClock m')"
  shows "length ks = card (set members)"
proof -
  have m: "rm_id (ss_node s i) = i" "\<And>p. fmlookup (rm_vectorClock (ss_node s i)) p \<noteq> None \<longleftrightarrow> p \<in> set members"
    using session_facts(2) [OF assms(1-3)] by (auto simp: node_ok_def)
  obtain c where "rm_vectorClock m' = fmupd i c (rm_vectorClock (ss_node s i))"
    using assms(4) m(1) by (auto simp: SendMessage_def Let_def split: option.splits)
  then have "p \<in> set ks \<longleftrightarrow> p \<in> set members" for p
    using m(2) [of p] assms(3) range_order_mem [OF assms(5), of p] by auto
  then have "set ks = set members" by blast
  then show ?thesis using assms(5) distinct_card [of ks] by (simp add: range_order_def)
qed

lemma line_is_sent:
  assumes "reach (session_init members port) (session_step members) s" "session_bound members s" "i \<in> set members"
    and "multicast_line (t\<lparr>sv_rm := ss_node s i\<rparr>) ks line = Some (s', [Retransmit enc frame])"
    and "range_order ks (rm_vectorClock (sv_rm s'))" "chat_payload line = Some payload"
    and "line_fits (card (set members)) line"
  shows "session_step members s (s\<lparr>ss_node := (ss_node s)(i := sv_rm s'),
      ss_sent := ss_sent s @ [sent_message (ss_node s i) payload (sv_rm s')], ss_wire := enc # ss_wire s\<rparr>)"
proof -
  have send: "SendMessage (ss_node s i) ks payload = Some (sv_rm s', enc, frame)"
    using assms(4,6) by (auto simp: multicast_line_def split: if_splits option.splits prod.splits)
  have "line_fits (length ks) line"
    using clock_has_members [OF assms(1-3) send assms(5)] assms(7) by simp
  from line_carried(2) [OF assms(4,6) this] step_send [OF assms(3) send assms(5)] show ?thesis by simp
qed

lemma room_step_before:
  "room_step members r r' \<Longrightarrow> session_bound members (ro_session r') \<and> lines_fit members r' \<Longrightarrow>
     session_bound members (ro_session r) \<and> lines_fit members r"
proof (induction rule: room_step.induct)
  case (room_session r t)
  then show ?case using session_bound_before by (auto simp: lines_fit_def)
qed (auto simp: session_bound_def lines_fit_def split: if_splits)

lemma by_sender_take_Suc:
  "n < length xs \<Longrightarrow> sayings (by_sender p (take (Suc n) xs)) =
     sayings (by_sender p (take n xs)) @ (if mc_UUID (xs ! n) = p then said (xs ! n) else [])"
  by (simp add: take_Suc_conv_app_nth)

lemma room_step_inv:
  assumes "room_step members r r'" "room_inv members port r" shows "room_inv members port r'"
  unfolding room_inv_def
proof (rule impI)
  assume "session_bound members (ro_session r') \<and> lines_fit members r'"
  moreover from this have "session_bound members (ro_session r)" "lines_fit members r"
    using room_step_before [OF assms(1)] by simp_all
  moreover from this assms(2) have
    "reach (session_init members port) (session_step members) (ro_session r) \<and>
      (\<forall>i \<in> set members. sv_id (ro_server r i) = i \<and> ro_done r i \<le> length (ss_log (ro_session r) i) \<and>
        sayings (by_sender i (ss_sent (ro_session r))) = map visible (ro_typed r i) \<and>
        (\<forall>p. p \<noteq> i \<longrightarrow> shown_by p (ro_shown r i) = sayings (by_sender p (take (ro_done r i) (ss_log (ro_session r) i)))))"
    unfolding room_inv_def by blast
  ultimately show "reach (session_init members port) (session_step members) (ro_session r') \<and>
      (\<forall>i \<in> set members. sv_id (ro_server r' i) = i \<and> ro_done r' i \<le> length (ss_log (ro_session r') i) \<and>
        sayings (by_sender i (ss_sent (ro_session r'))) = map visible (ro_typed r' i) \<and>
        (\<forall>p. p \<noteq> i \<longrightarrow> shown_by p (ro_shown r' i) = sayings (by_sender p (take (ro_done r' i) (ss_log (ro_session r') i)))))"
    using assms(1)
  proof (induction rule: room_step.induct [OF assms(1)])
    case (1 i r ks line s' enc frame payload)
    let ?x = "sent_message (ss_node (ro_session r) i) payload (sv_rm s')"
    have fits: "line_fits (card (set members)) line" using 1 by (auto simp: lines_fit_def)
    have reach: "reach (session_init members port) (session_step members) (ro_session r)" and
      bound: "session_bound members (ro_session r)" using 1 by blast+
    have step: "session_step members (ro_session r) ((ro_session r)\<lparr>ss_node := (ss_node (ro_session r))(i := sv_rm s'),
        ss_sent := ss_sent (ro_session r) @ [?x], ss_wire := enc # ss_wire (ro_session r)\<rparr>)"
      by (rule line_is_sent [OF reach bound 1(1,3-5) fits])
    have "mc_UUID ?x = i"
      using session_facts(2) [OF reach bound 1(1)] by (simp add: node_ok_def sent_message_def)
    moreover have "said ?x = [visible line]"
      by (rule payload_says [OF 1(5) line_fits_short [OF fits]]) (simp add: sent_message_def)
    ultimately show ?case using reach_step [OF reach step] 1 by auto
  next
    case (2 r t)
    have "sayings (by_sender i (ss_sent t)) = sayings (by_sender i (ss_sent (ro_session r)))" for i
      using step_sent_append [OF 2(1)] silent_sayings [OF 2(2)]
      by (metis append_Nil2 by_sender_simps(3) sayings_simps(3))
    moreover have "take n (ss_log t i) = take n (ss_log (ro_session r) i) \<and> n \<le> length (ss_log t i)"
      if "n \<le> length (ss_log (ro_session r) i)" for n i
      using step_log_grows [OF 2(1), of i] that by auto
    ultimately show ?case using 2 by (auto intro: reach_step)
  next
    case (3 i r x s' effs)
    have "app_lines effs = (if mc_UUID x = i then [] else said x) \<and> sv_id s' = i"
      if "sv_id (ro_server r i) = i"
      using dispatch_says [OF 3(4)] 3(4) that
      by (cases "mc_UUID x = i") (auto simp: dispatch_multicast_def app_lines_def)
    then show ?case using 3 by (auto simp: by_sender_take_Suc)
  next
    case (4 s' r i)
    then show ?case by simp
  qed
qed

interpretation chat_room: invariant_system "room_init members port" "room_step members" "room_inv members port"
  for members port
proof
  fix r assume "room_init members port r"
  then show "room_inv members port r"
    by (auto simp: room_init_def room_inv_def session_init_def shown_by_def intro: reach_init)
qed (rule room_step_inv)


section \<open>Two members\<close>

definition pair_room :: room where
  "pair_room = \<lparr>ro_session = pair_start, ro_server = (\<lambda>i. (sample_server i FOLLOWER)), ro_done = (\<lambda>i. 0),
     ro_typed = (\<lambda>i. []), ro_shown = (\<lambda>i. [])\<rparr>"

lemma pair_room_reach: "reach (room_init pair_members 0) (room_step pair_members) pair_room"
  by (rule reach_init) (simp add: room_init_def pair_room_def pair_init sample_server_def)

text \<open>The steps of the session in which nobody sends are steps of the room.\<close>

lemma room_follows_session:
  assumes "reach (\<lambda>u. u = ro_session r) (session_step members) t" "reach (room_init members port) (room_step members) r"
    and "ss_sent t = ss_sent (ro_session r)"
  shows "reach (room_init members port) (room_step members) (r\<lparr>ro_session := t\<rparr>)"
proof -
  let ?n = "length (ss_sent (ro_session r))"
  have "?n \<le> length (ss_sent t) \<and>
      (length (ss_sent t) \<le> ?n \<longrightarrow> reach (room_init members port) (room_step members) (r\<lparr>ro_session := t\<rparr>))"
    using assms(1)
  proof (induction rule: reach.induct)
    case (reach_init u)
    then show ?case using assms(2) by simp
  next
    case (reach_step u v)
    have sent: "ss_sent v = ss_sent u @ drop (length (ss_sent u)) (ss_sent v)"
      by (rule step_sent_append [OF reach_step.hyps(2)])
    then have le: "length (ss_sent u) \<le> length (ss_sent v)" by (metis length_append le_add1)
    show ?case
    proof (intro conjI impI)
      show "?n \<le> length (ss_sent v)" using reach_step.IH le by simp
      assume v: "length (ss_sent v) \<le> ?n"
      then have "reach (room_init members port) (room_step members) (r\<lparr>ro_session := u\<rparr>)" using reach_step.IH le by simp
      moreover have "room_step members (r\<lparr>ro_session := u\<rparr>) ((r\<lparr>ro_session := u\<rparr>)\<lparr>ro_session := v\<rparr>)"
        by (rule room_session) (use reach_step v le in auto)
      ultimately show "reach (room_init members port) (room_step members) (r\<lparr>ro_session := v\<rparr>)"
        using reach.reach_step by fastforce
    qed
  qed
  then show ?thesis using assms(3) by simp
qed

text \<open>One of the two types a line; it is on the network, the other one has not seen it yet.\<close>

definition typed_hi :: "ReliableMulticast \<Rightarrow> bytes \<Rightarrow> MMessage \<Rightarrow> room" where
  "typed_hi m' enc x = pair_room\<lparr>ro_session := pair_start\<lparr>ss_node := (ss_node pair_start)(bert := m'),
       ss_sent := [x], ss_wire := [enc]\<rparr>,
     ro_typed := (\<lambda>i. [])(bert := [[104, 105]])\<rparr>"

lemma pair_room_line:
  "\<exists>m' enc x d. reach (room_init pair_members 0) (room_step pair_members) (typed_hi m' enc x) \<and>
     wire_ok [x] [enc] \<and> strip x = x \<and> mc_UUID x = bert \<and>
     Decode (mc_Message x) = Inr d \<and> m_Type d = Application \<and> m_Msg d = [104, 105]"
proof -
  have short: "length ([104, 105] :: gostring) < 2 ^ 32" by simp
  obtain b d where b: "chat_payload [104, 105] = Some b" "Decode b = Inr d" "m_Type d = Application" "m_Msg d = [104, 105]"
    using chat_payload_decodes [OF short] by auto
  have "length b \<le> 800" using payload_length [OF b(1)] by (simp add: visible_def)
  moreover have "m_Type d \<noteq> NewNode" using b(3) by (simp add: message_types)
  moreover have start: "pair_reach pair_start" "session_bound pair_members pair_start"
    using pair_facts(2) pair_init by (auto simp: session_bound_def pair_start_def intro: reach_init)
  ultimately obtain m' enc frame where
    send: "SendMessage (ss_node pair_start bert) [anna, bert] b = Some (m', enc, frame)"
      "range_order [anna, bert] (rm_vectorClock m')"
      "wire_ok [sent_message (ss_node pair_start bert) b m'] [enc]" "mc_UUID (sent_message (ss_node pair_start bert) b m') = bert"
    using pair_sends [OF _ _ pair_facts(5) b(2)] by blast
  let ?x = "sent_message (ss_node pair_start bert) b m'"
  let ?s' = "(sample_server bert FOLLOWER)\<lparr>sv_rm := m'\<rparr>"
  have may: "may_multicast (sample_server bert FOLLOWER)"
    by (simp add: may_multicast_def sample_server_def)
  then have "multicast_line ((ro_server pair_room bert)\<lparr>sv_rm := ss_node (ro_session pair_room) bert\<rparr>)
      [anna, bert] [104, 105] = Some (?s', [Retransmit enc frame])"
    using b(1) send(1) by (simp add: multicast_line_def pair_room_def may_multicast_def)
  from room_line [OF pair_facts(5) _ this _ b(1)] may send(2)
  have "room_step pair_members pair_room (typed_hi m' enc ?x)"
    by (simp add: pair_room_def typed_hi_def pair_start_def)
  with pair_room_reach have "reach (room_init pair_members 0) (room_step pair_members) (typed_hi m' enc ?x)"
    by (rule reach_step)
  then show ?thesis
    using send(3,4) b(2-4) by (intro exI [of _ m'] exI [of _ enc] exI [of _ ?x] exI [of _ d])
      (simp add: strip_def sent_message_def)
qed

lemma DeliverMessages_empty: "rm_holdBackQueue m = [] \<Longrightarrow> DeliverMessages m = Some (m, [])"
  by (subst DeliverMessages.simps) simp

text \<open>It arrives, is delivered, and its clients are shown the line.\<close>

lemma pair_room_shows:
  "\<exists>r x m'. reach (room_init pair_members 0) (room_step pair_members) r \<and> session_bound pair_members (ro_session r) \<and>
     lines_fit pair_members r \<and> ro_typed r bert = [[104, 105]] \<and> ss_sent (ro_session r) = [x] \<and>
     (mc_UUID x \<noteq> anna \<longrightarrow> arrived (ss_node (ro_session r) anna) x) \<and>
     DeliverMessages (ss_node (ro_session r) anna) = Some (m', []) \<and>
     ro_done r anna = length (ss_log (ro_session r) anna)"
proof -
  obtain m' enc x d where hi: "reach (room_init pair_members 0) (room_step pair_members) (typed_hi m' enc x)"
    "wire_ok [x] [enc]" "strip x = x" "mc_UUID x = bert"
    "Decode (mc_Message x) = Inr d" "m_Type d = Application" "m_Msg d = [104, 105]"
    using pair_room_line by blast
  let ?r = "typed_hi m' enc x"
  have ba: "bert \<noteq> anna" using pair_facts(1) by simp
  have bound: "session_bound pair_members s \<longleftrightarrow> length (ss_sent s) < 2 ^ 32" for s
    using pair_facts(2) by (simp add: session_bound_def)
  have fits: "lines_fit pair_members r" if "ro_typed r = ro_typed ?r" for r
    using that pair_facts(1,3) by (simp add: lines_fit_def typed_hi_def line_fits_def visible_def)
  have s: "session_bound pair_members (ro_session ?r)" "ss_sent (ro_session ?r) = [x]" "enc \<in> set (ss_wire (ro_session ?r))"
    "ss_log (ro_session ?r) = (\<lambda>i. [])" "ss_node (ro_session ?r) anna = ss_node pair_start anna"
    using ba bound by (simp_all add: typed_hi_def pair_start_def)
  have rs: "pair_reach (ro_session ?r)"
    using chat_room.reach_inv [OF hi(1)] fits [of ?r] s(1) by (simp add: room_inv_def)
  obtain t where t: "reach (\<lambda>u. u = ro_session ?r) (session_step pair_members) t" "ss_sent t = [x]"
    "rm_holdBackQueue (ss_node t anna) = rm_holdBackQueue (ss_node (ro_session ?r) anna) @ [x]" "ss_log t = (\<lambda>i. [])"
    using message_arrives [OF rs s(1) pair_facts(4) s(3) hi(2,3)] hi(4) ba s by auto
  have queue: "rm_holdBackQueue (ss_node t anna) = [x]"
    using t(3) s(5) new_session_facts(2) [OF pair_new [OF pair_facts(4)]] by simp
  have rt: "pair_reach t" "session_bound pair_members t"
    using reach_from [OF t(1) rs] bound t(2) by simp_all
  have "\<forall>z \<in> set (ss_sent t). mc_UUID z \<noteq> anna \<longrightarrow> arrived (ss_node t anna) z"
    using t(2) queue hi(3) by (auto simp: arrived_def image_iff)
  then obtain m1 ms where d: "DeliverMessages (ss_node t anna) = Some (m1, ms)"
    "map strip (by_sender bert (ss_log t anna @ ms)) = by_sender bert (ss_sent t)"
    using arrivals_delivered [OF rt pair_facts(4)] ba by blast
  obtain dups where queued: "mset [x] = mset ms + mset dups + mset (rm_holdBackQueue m1)"
    using DeliverMessages_conserves [OF d(1)] queue by auto
  obtain y ys where ys: "ms = y # ys" using d(2) t(2,4) hi(4) by (cases ms) auto
  have "size (mset [x]) = size (mset ms + mset dups + mset (rm_holdBackQueue m1))" using queued by simp
  then have empty: "ys = []" "dups = []" "rm_holdBackQueue m1 = []" using ys by simp_all
  then have ms: "ms = [x]" "rm_holdBackQueue m1 = []" using queued ys by simp_all
  let ?t = "t\<lparr>ss_node := (ss_node t)(anna := m1), ss_log := (ss_log t)(anna := ss_log t anna @ ms)\<rparr>"
  have "reach (\<lambda>u. u = ro_session ?r) (session_step pair_members) ?t"
    using t(1) step_deliver [OF pair_facts(4) d(1)] by (rule reach_step)
  then have r1: "reach (room_init pair_members 0) (room_step pair_members) (?r\<lparr>ro_session := ?t\<rparr>)"
    by (rule room_follows_session [OF _ hi(1)]) (simp add: t(2) s(2))
  have "dispatch_multicast (ro_server (?r\<lparr>ro_session := ?t\<rparr>) anna) x =
      Some (sample_server anna FOLLOWER, [To_applicationMsgChan [104, 105]])"
    using hi(4-7) ba
    by (simp add: dispatch_multicast_def typed_hi_def pair_room_def sample_server_def message_types)
  from room_dispatch [OF pair_facts(4) _ _ this] have
    "room_step pair_members (?r\<lparr>ro_session := ?t\<rparr>) (?r\<lparr>ro_session := ?t,
       ro_server := (ro_server ?r)(anna := sample_server anna FOLLOWER), ro_done := (ro_done ?r)(anna := 1),
       ro_shown := (ro_shown ?r)(anna := ro_shown ?r anna @ [(bert, [104, 105])])\<rparr>)"
    using ms t(4) hi(4) by (simp add: typed_hi_def pair_room_def app_lines_def)
  with r1 have "reach (room_init pair_members 0) (room_step pair_members) (?r\<lparr>ro_session := ?t,
       ro_server := (ro_server ?r)(anna := sample_server anna FOLLOWER), ro_done := (ro_done ?r)(anna := 1),
       ro_shown := (ro_shown ?r)(anna := ro_shown ?r anna @ [(bert, [104, 105])])\<rparr>)" (is "reach _ _ ?r2")
    by (rule reach_step)
  moreover have "session_bound pair_members (ro_session ?r2)" using bound t(2) by simp
  moreover have "arrived m1 x"
    using arrived_stays [OF d(1), of x] queue hi(3) by (auto simp: arrived_def image_iff)
  moreover have "ro_typed ?r2 bert = [[104, 105]]" by (simp add: typed_hi_def)
  ultimately show ?thesis
    using fits [of ?r2] t(2,4) ms DeliverMessages_empty [OF ms(2)]
    by (intro exI [of _ ?r2] exI [of _ x] exI [of _ m1]) simp
qed

section \<open>Properties\<close>

text \<open>C2: the chat is complete and in order. In every reachable state of the servers of a session, whatever the
  network does and however the dispatchers are delayed, the lines of p that another server handed to
  its clients are the first lines that p multicast, in order, with a blank for an empty line. Once all
  messages have arrived at a server, nothing is left to deliver and its dispatcher has caught up,
  they are all of them. This holds as long as every line that was typed fits: with the clock of all
  members its datagram has no more than the 1024 bytes of the receive buffer. (The program lets users
  type longer lines, of which the receivers see a part.)\<close>

theorem chat_room_order:
  assumes "reach (room_init members port) (room_step members) r" "session_bound members (ro_session r)"
    and "i \<in> set members" "p \<in> set members" "p \<noteq> i" "lines_fit members r"
  shows "(\<exists>rest. map visible (ro_typed r p) = shown_by p (ro_shown r i) @ rest) \<and>
    ((\<forall>x \<in> set (ss_sent (ro_session r)). mc_UUID x \<noteq> i \<longrightarrow> arrived (ss_node (ro_session r) i) x) \<and>
       DeliverMessages (ss_node (ro_session r) i) = Some (m', []) \<and> ro_done r i = length (ss_log (ro_session r) i) \<longrightarrow>
     shown_by p (ro_shown r i) = map visible (ro_typed r p))"
proof -
  let ?s = "ro_session r" and ?log = "ss_log (ro_session r) i" and ?n = "ro_done r i"
  have inv: "room_inv members port r" by (rule chat_room.reach_inv [OF assms(1)])
  then have s: "reach (session_init members port) (session_step members) ?s"
    "shown_by p (ro_shown r i) = sayings (by_sender p (take ?n ?log))"
    "map visible (ro_typed r p) = sayings (by_sender p (ss_sent ?s))"
    using assms(2-6) by (auto simp: room_inv_def)
  let ?c = "clock_of (ss_node ?s i) p"
  have log: "map strip (by_sender p ?log) = take ?c (by_sender p (ss_sent ?s))"
    using session_facts(2) [OF s(1) assms(2,3)] assms(5) by (simp add: node_ok_def)
  have "sayings (by_sender p ?log) = sayings (by_sender p (take ?n ?log)) @ sayings (by_sender p (drop ?n ?log))"
    by (metis append_take_drop_id by_sender_simps(3) sayings_simps(3))
  moreover have "sayings (by_sender p (ss_sent ?s)) =
      sayings (by_sender p ?log) @ sayings (drop ?c (by_sender p (ss_sent ?s)))"
    by (metis append_take_drop_id log sayings_simps(3) sayings_strip)
  ultimately have prefix: "\<exists>rest. map visible (ro_typed r p) = shown_by p (ro_shown r i) @ rest"
    using s(2,3) by simp
  have all: "shown_by p (ro_shown r i) = map visible (ro_typed r p)"
    if arr: "\<forall>x \<in> set (ss_sent ?s). mc_UUID x \<noteq> i \<longrightarrow> arrived (ss_node ?s i) x"
      and d: "DeliverMessages (ss_node ?s i) = Some (m', [])" "?n = length ?log"
  proof -
    have "map strip (by_sender p ?log) = by_sender p (ss_sent ?s)"
      using arrivals_delivered [OF s(1) assms(2,3) arr] d(1) assms(5) by auto
    then show ?thesis using s(2,3) d(2) by (metis sayings_strip take_all_iff order_refl)
  qed
  show ?thesis using prefix all by blast
qed

theorem chat_room_order_witness:
  "\<exists>r. reach (room_init pair_members 0) (room_step pair_members) r \<and> ro_typed r bert = [[104, 105]] \<and>
     shown_by bert (ro_shown r anna) = [[104, 105]]"
proof -
  obtain r x m' where r: "reach (room_init pair_members 0) (room_step pair_members) r"
    "session_bound pair_members (ro_session r)" "lines_fit pair_members r" "ro_typed r bert = [[104, 105]]"
    and all: "ss_sent (ro_session r) = [x]" "mc_UUID x \<noteq> anna \<longrightarrow> arrived (ss_node (ro_session r) anna) x"
      "DeliverMessages (ss_node (ro_session r) anna) = Some (m', [])" "ro_done r anna = length (ss_log (ro_session r) anna)"
    using pair_room_shows by blast
  have "bert \<noteq> anna" using pair_facts(1) by simp
  from chat_room_order [OF r(1,2) pair_facts(4,5) this r(3), of m'] all r show ?thesis
    by (intro exI [of _ r]) (simp add: visible_def)
qed

text \<open>C24: what a user types is shown to the other users as it is. Take a user's name and input that make a line
  of at most 65535 bytes, which the server's scanner accepts, and that fits a datagram. The client
  sends it as one line, colon and all; the multicast of that line, received by any other member, starts
  one delivery, whose message the dispatcher hands to its clients; and a client that is sent the line
  shows the user's name and the input, whatever the input looks like, and never takes it for a
  redirection.\<close>

theorem chat_end_to_end:
  assumes "10 \<notin> set name" "58 \<notin> set name" "10 \<notin> set input" "input \<noteq> []" "last input \<noteq> 13"
    and "multicast_line s ks (name @ 58 # input) = Some (s', [Retransmit enc frame])"
    and "range_order ks (rm_vectorClock (sv_rm s'))" "fmpred (\<lambda>k c. length k = 36) (rm_vectorClock (sv_rm s'))"
    and "length (rm_id (sv_rm s)) = 36" "line_fits (length ks) (name @ 58 # input)"
    and "rm_id m \<noteq> rm_id (sv_rm s)" "sv_id t \<noteq> rm_id (sv_rm s)"
  shows "handleConn (chat_input name input) = ([name @ 58 # input], [name @ 58 # input]) \<and>
    (\<exists>m' effs x. handle_datagram m ip enc = Some (m', effs) \<and> spawned effs = [x] \<and>
       dispatch_multicast t x = Some (t, [To_applicationMsgChan (name @ 58 # input)])) \<and>
    list_all (\<lambda>(c, written). client_listen (scan_lines written) = ([Said name input], []))
      (sendMessageToConnectedClients cs (name @ 58 # input))"
proof -
  let ?line = "name @ 58 # input"
  have "length ?line \<le> 1024" using assms(10) by (auto simp: line_fits_def visible_def)
  then have line: "scannable ?line" using assms(1-5) by (simp add: scannable_def MaxScanTokenSize_def)
  have typed: "handleConn (chat_input name input) = ([?line], [?line])"
    using scan_lines_line [OF line, of "[]"] assms(4)
    by (simp add: handleConn_def chat_input_def sendMessageToServer_def scan_lines_def)
  have shown: "client_listen (scan_lines (?line @ [10])) = ([Said name input], [])"
    using scan_lines_line [OF line, of "[]"] split_colon_append [OF assms(2)]
    by (simp add: client_line_def scan_lines_def)
  obtain payload where payload: "chat_payload ?line = Some payload"
    using chat_payload_decodes [OF line_fits_short [OF assms(10)]] by blast
  note c = line_carried [OF assms(6) payload assms(10)]
  let ?x = "sent_message (sv_rm s) payload (sv_rm s')"
  have "wire_ok [?x] [enc]"
    by (rule send_wire [OF c(1) assms(7) c(2) _ assms(9)]) (use assms(8) in \<open>auto simp: fmpred_iff\<close>)
  then obtain ks' where x: "enc = encodeMulticastMessage ks' ?x" "range_order ks' (mc_VectorClock ?x)" "wf_mmessage ?x"
    "length enc \<le> 1024"
    by (auto simp: wire_ok_def carried_def)
  obtain d where d: "Decode payload = Inr d" "m_Type d = Application" "m_Msg d = ?line"
    using chat_payload_decodes [OF line_fits_short [OF assms(10)]] payload by auto
  have dec: "decodeMulticastMessage (recv_buf enc) ip = Inr (?x\<lparr>mc_IP := ip\<rparr>)"
    using x(4) decode_encode_multicast [OF x(3,2)] assms(9)
    by (simp add: x(1) canonical_mmessage_def sent_message_def)
  have "handle_datagram m ip enc = Some (m, [Ack_To ip (rm_id (sv_rm s)) (NewMulticastAckMessage (rm_frame (sv_rm s))),
      Deliver_Now [], Spawn_Deliver (?x\<lparr>mc_IP := ip\<rparr>)])"
    using dec d(1,2) assms(11)
    by (simp add: handle_datagram_def handle_message_def sent_message_def message_types)
  moreover have "dispatch_multicast t (?x\<lparr>mc_IP := ip\<rparr>) = Some (t, [To_applicationMsgChan ?line])"
    using d assms(12) by (simp add: dispatch_multicast_def sent_message_def message_types)
  ultimately show ?thesis
    using typed shown by (auto simp: spawned_def sendMessageToConnectedClients_def list_all_iff)
qed

theorem chat_end_to_end_witness:
  "\<exists>s' enc frame m' effs x. multicast_line ((sample_server bert FOLLOWER)\<lparr>sv_rm := ss_node pair_start bert\<rparr>)
      [anna, bert] [97, 58, 49, 46, 50] = Some (s', [Retransmit enc frame]) \<and>
    handleConn (chat_input [97] [49, 46, 50]) = ([[97, 58, 49, 46, 50]], [[97, 58, 49, 46, 50]]) \<and>
    handle_datagram (ss_node pair_start anna) [1] enc = Some (m', effs) \<and> spawned effs = [x] \<and>
    dispatch_multicast (sample_server anna LEADER) x =
      Some (sample_server anna LEADER, [To_applicationMsgChan [97, 58, 49, 46, 50]])"
proof -
  let ?s = "(sample_server bert FOLLOWER)\<lparr>sv_rm := ss_node pair_start bert\<rparr>"
  let ?line = "[97, 58, 49, 46, 50] :: gostring"
  have short: "length ?line < 2 ^ 32" by simp
  obtain b d where b: "chat_payload ?line = Some b" "Decode b = Inr d" "m_Type d = Application"
    using chat_payload_decodes [OF short] by auto
  have "length b \<le> 800" using payload_length [OF b(1)] by (simp add: visible_def)
  moreover have "m_Type d \<noteq> NewNode" using b(3) by (simp add: message_types)
  moreover have "pair_reach pair_start" "session_bound pair_members pair_start"
    using pair_facts(2) pair_init by (auto simp: session_bound_def pair_start_def intro: reach_init)
  ultimately obtain m' enc frame where
    send: "SendMessage (ss_node pair_start bert) [anna, bert] b = Some (m', enc, frame)"
      "range_order [anna, bert] (rm_vectorClock m')"
    using pair_sends [OF _ _ pair_facts(5) b(2)] by blast
  have ids: "rm_id (ss_node pair_start bert) = bert" "rm_id (ss_node pair_start anna) = anna"
    using new_session_facts(1) [OF pair_new] pair_facts(4,5) by simp_all
  have line: "multicast_line ?s [anna, bert] ?line = Some (?s\<lparr>sv_rm := m'\<rparr>, [Retransmit enc frame])"
    using b(1) send(1) by (simp add: multicast_line_def may_multicast_def sample_server_def)
  have keys: "fmpred (\<lambda>k c. length k = 36) (rm_vectorClock m')"
  proof (rule fmpredI)
    fix k c assume "fmlookup (rm_vectorClock m') k = Some c"
    then have "k \<in> set [anna, bert]" using range_order_mem [OF send(2), of k] by simp
    then show "length k = 36" using pair_facts(6,7) by auto
  qed
  have fits: "line_fits (length [anna, bert]) ([97] @ 58 # [49, 46, 50])" by (simp add: line_fits_def visible_def)
  have line': "multicast_line ?s [anna, bert] ([97] @ 58 # [49, 46, 50]) = Some (?s\<lparr>sv_rm := m'\<rparr>, [Retransmit enc frame])"
    using line by simp
  have "range_order [anna, bert] (rm_vectorClock (sv_rm (?s\<lparr>sv_rm := m'\<rparr>)))"
    "fmpred (\<lambda>k c. length k = 36) (rm_vectorClock (sv_rm (?s\<lparr>sv_rm := m'\<rparr>)))" "length (rm_id (sv_rm ?s)) = 36"
    "rm_id (ss_node pair_start anna) \<noteq> rm_id (sv_rm ?s)" "sv_id (sample_server anna LEADER) \<noteq> rm_id (sv_rm ?s)"
    using send(2) keys ids pair_facts(1,7) by (simp_all add: sample_server_def)
  note e = chat_end_to_end [OF _ _ _ _ _ line' this(1-3) fits this(4,5), of "[1]" "\<lparr>cs_ip = [], cs_clients = [0]\<rparr>"]
  have "handleConn (chat_input [97] [49, 46, 50]) = ([[97, 58, 49, 46, 50]], [[97, 58, 49, 46, 50]])"
    "\<exists>m' effs x. handle_datagram (ss_node pair_start anna) [1] enc = Some (m', effs) \<and> spawned effs = [x] \<and>
       dispatch_multicast (sample_server anna LEADER) x =
         Some (sample_server anna LEADER, [To_applicationMsgChan [97, 58, 49, 46, 50]])"
    using e by simp_all
  then show ?thesis using line by blast
qed

end
