(* ===== verification/ServerSystem.thy ===== *)
theory ServerSystem
  imports ServerStates
begin

text \<open>
  One server as a whole: the object of \<open>ServerCore\<close>, the goroutines that the state machine starts, the
  main loop of \<^verbatim>\<open>server/server.go\<close>, the listeners of the states, the two dispatchers and the multicast
  session, interleaved. Every step is one of the operations of the other theories.
\<close>

section \<open>The running server\<close>

text \<open>
  \<open>sy_announcing\<close> are the action goroutines that still have to hand their state to the main loop, in
  the order in which they were started; \<open>sy_running\<close> those that have done so. \<open>sy_election\<close> says
  whether the main loop is inside an election. \<open>sy_alive\<close> are the state listeners whose goroutines
  may still run, each with the leader it was started under: an old one goes on until it sees
  that its quit channel is closed. \<open>sy_umsg\<close> is the message at which the unicast dispatcher waits
  for a reader of \<open>uMsgChan\<close>. \<open>sy_admissions\<close> are the joins in progress.
\<close>

datatype look = NoElection | FirstLook | SecondLook

record system =
  sy_server :: Server
  sy_announcing :: "(Action \<times> StateMachineMessage) list"
  sy_running :: "(Action \<times> StateMachineMessage) list"
  sy_election :: look
  sy_alive :: "(State \<times> gostring) list"
  sy_umsg :: "UMessage option"
  sy_admissions :: "(gostring \<times> admission \<times> u32) list"

text \<open>The actions an operation started, and what it put on \<open>uMsgChan\<close>.\<close>

definition started :: "effect list \<Rightarrow> (Action \<times> StateMachineMessage) list" where
  "started effs = concat (map (\<lambda>e. case e of Run_Action a args \<Rightarrow> [(a, args)] | _ \<Rightarrow> []) effs)"

definition forwarded_msgs :: "effect list \<Rightarrow> UMessage list" where
  "forwarded_msgs effs = concat (map (\<lambda>e. case e of To_uMsgChan m \<Rightarrow> [m] | _ \<Rightarrow> []) effs)"

definition update :: "system \<Rightarrow> Server \<Rightarrow> effect list \<Rightarrow> system" where
  "update y s effs = y\<lparr>sy_server := s, sy_announcing := sy_announcing y @ started effs\<rparr>"

text \<open>\<open>Run\<close> on a new server: the main loop waits, and the machine is asked for INIT.\<close>

definition system_init :: "gostring \<Rightarrow> gostring \<Rightarrow> u32 \<Rightarrow> system \<Rightarrow> bool" where
  "system_init uid ip port y \<longleftrightarrow>
     (\<exists>s. NewServer uid ip port = Some s \<and>
        y = update \<lparr>sy_server = s, sy_announcing = [], sy_running = [], sy_election = NoElection,
                   sy_alive = [], sy_umsg = None, sy_admissions = []\<rparr>
              (fst (sm_ChangeTo s INIT no_args)) (snd (sm_ChangeTo s INIT no_args)))"

text \<open>The actions that have nothing left to do once they have announced their state.\<close>

definition plain :: "Action \<Rightarrow> bool" where
  "plain a \<longleftrightarrow> a \<in> {InitToLeader, FollowerToElection, FollowerToFollower, BecomeLeaderToLeader,
                  ElectionToFollower, ElectionToElection}"

text \<open>
  The steps. \<open>stateChan\<close> has no buffer, so the main loop takes the state of any waiting goroutine;
  with \<open>fifo\<close> only of the one that was started first. The old listener's stop, the new state and the
  new listener's start are one step. An operation that panics ends the process, so it is no step.
\<close>

inductive sys_step :: "bool \<Rightarrow> system \<Rightarrow> system \<Rightarrow> bool" for fifo where
  sys_main: "sy_announcing y = xs @ (a, args) # ys \<Longrightarrow> (fifo \<longrightarrow> xs = []) \<Longrightarrow> sy_election y = NoElection \<Longrightarrow>
     range_order ks (sv_peers (sy_server y)) \<Longrightarrow>
     main_loop (sy_server y) (announced_state a) ks = Returns (s', effs) \<Longrightarrow>
     sys_step fifo y
       (y\<lparr>sy_server := s', sy_announcing := xs @ ys, sy_running := (a, args) # sy_running y,
          sy_election := (if announced_state a = ELECTION then FirstLook else NoElection),
          sy_alive := (announced_state a, sv_leaderID s') # sy_alive y\<rparr>)"
| sys_quit: "l \<in> set (sy_alive y) \<Longrightarrow> l \<noteq> hd (sy_alive y) \<Longrightarrow>
     sys_step fifo y (y\<lparr>sy_alive := filter (\<lambda>k. k \<noteq> l) (sy_alive y)\<rparr>)"
| sys_listened: "(a, args) \<in> set (sy_running y) \<Longrightarrow> a = StartToInit \<or> a = BecomeFollowerToInit \<Longrightarrow>
     after_listening (sy_server y) found = (s', effs) \<Longrightarrow>
     sys_step fifo y (update (y\<lparr>sy_running := remove1 (a, args) (sy_running y)\<rparr>) s' effs)"
| sys_asked: "(InitToBecomeFollower, args) \<in> set (sy_running y) \<Longrightarrow> smm_Broadcast args = Some b \<Longrightarrow>
     asked_leader (sy_server y) b sent None = Some (s', effs) \<Longrightarrow>
     sys_step fifo y (update (y\<lparr>sy_running := remove1 (InitToBecomeFollower, args) (sy_running y)\<rparr>) s' effs)"
| sys_informed: "(InitToBecomeFollower, args) \<in> set (sy_running y) \<Longrightarrow> smm_Broadcast args = Some b \<Longrightarrow>
     sy_umsg y = Some m \<Longrightarrow> peerInfoFromLeader (bc_UUID b) [m] = Some (Some m) \<Longrightarrow>
     asked_leader (sy_server y) b True (Some m) = Some (s', effs) \<Longrightarrow>
     sys_step fifo y (update (y\<lparr>sy_umsg := None,
       sy_running := remove1 (InitToBecomeFollower, args) (sy_running y)\<rparr>) s' effs)"
| sys_skipped: "(InitToBecomeFollower, args) \<in> set (sy_running y) \<Longrightarrow> smm_Broadcast args = Some b \<Longrightarrow>
     sy_umsg y = Some m \<Longrightarrow> peerInfoFromLeader (bc_UUID b) [m] = Some None \<Longrightarrow>
     sys_step fifo y (y\<lparr>sy_umsg := None\<rparr>)"
| sys_joined: "(BecomeFollowerToFollower, args) \<in> set (sy_running y) \<Longrightarrow>
     become_follower (sy_server y) args = Some (s', effs) \<Longrightarrow>
     sys_step fifo y (update (y\<lparr>sy_running := remove1 (BecomeFollowerToFollower, args) (sy_running y)\<rparr>) s' effs)"
| sys_back: "(LeaderToInit, args) \<in> set (sy_running y) \<Longrightarrow> leader_to_init (sy_server y) args = (s', effs) \<Longrightarrow>
     sys_step fifo y (update (y\<lparr>sy_running := remove1 (LeaderToInit, args) (sy_running y)\<rparr>) s' effs)"
| sys_victory: "(ElectionToBecomeLeader, args) \<in> set (sy_running y) \<Longrightarrow>
     range_order ks (rm_vectorClock (sv_rm (sy_server y))) \<Longrightarrow>
     announce_victory (sy_server y) ks = Some (s', effs) \<Longrightarrow>
     sys_step fifo y (update (y\<lparr>sy_running := remove1 (ElectionToBecomeLeader, args) (sy_running y)\<rparr>) s' effs)"
| sys_done: "(a, args) \<in> set (sy_running y) \<Longrightarrow> plain a \<Longrightarrow>
     sys_step fifo y (y\<lparr>sy_running := remove1 (a, args) (sy_running y)\<rparr>)"
| sys_reply: "fmlookup (sv_electionMap (sy_server y)) uuid \<noteq> None \<Longrightarrow>
     sys_step fifo y (y\<lparr>sy_server := election_reply (sy_server y) uuid\<rparr>)"
| sys_look1: "sy_election y = FirstLook \<Longrightarrow> election_check (sy_server y) = (s', effs, again) \<Longrightarrow>
     sys_step fifo y (update (y\<lparr>sy_election := (if again then SecondLook else NoElection)\<rparr>) s' effs)"
| sys_look2: "sy_election y = SecondLook \<Longrightarrow> election_recheck (sy_server y) = (s', effs) \<Longrightarrow>
     sys_step fifo y (update (y\<lparr>sy_election := NoElection\<rparr>) s' effs)"
| sys_unicast: "sy_umsg y = None \<Longrightarrow> dispatch_unicast (sy_server y) m = Some (s', effs) \<Longrightarrow>
     sys_step fifo y (update (y\<lparr>sy_umsg := (case forwarded_msgs effs of [] \<Rightarrow> None | m # ms \<Rightarrow> Some m)\<rparr>) s' effs)"
| sys_multicast: "dispatch_multicast (sy_server y) x = Some (s', effs) \<Longrightarrow> sys_step fifo y (update y s' effs)"
| sys_line: "range_order ks (rm_vectorClock (sv_rm (sy_server y))) \<Longrightarrow>
     multicast_line (sy_server y) ks l = Some (s', effs) \<Longrightarrow> sys_step fifo y (update y s' effs)"
| sys_dead: "(LEADER, leader) \<in> set (sy_alive y) \<Longrightarrow> range_order us (sv_peers (sy_server y)) \<Longrightarrow>
     uuid \<in> set (snd (monitor_tick (sv_id (sy_server y)) now us heard)) \<Longrightarrow>
     range_order ks (rm_vectorClock (sv_rm (sy_server y))) \<Longrightarrow>
     handleDeadServer (sy_server y) uuid ks = Some (s', effs) \<Longrightarrow>
     sys_step fifo y (update y s' effs)"
| sys_rival: "(LEADER, leader) \<in> set (sy_alive y) \<Longrightarrow> leader_broadcast (sy_server y) b = (s', effs) \<Longrightarrow>
     sys_step fifo y (update y s' effs)"
| sys_leader_umsg: "(LEADER, leader) \<in> set (sy_alive y) \<Longrightarrow> sy_umsg y = Some m \<Longrightarrow>
     leader_umsg (sy_server y) m = Some (Changed s' effs) \<Longrightarrow>
     sys_step fifo y (update (y\<lparr>sy_umsg := None\<rparr>) s' effs)"
| sys_leader_ignores: "(LEADER, leader) \<in> set (sy_alive y) \<Longrightarrow> sy_umsg y = Some m \<Longrightarrow>
     leader_umsg (sy_server y) m = Some Ignored \<Longrightarrow> sys_step fifo y (y\<lparr>sy_umsg := None\<rparr>)"
| sys_admit: "(LEADER, leader) \<in> set (sy_alive y) \<Longrightarrow> sy_umsg y = Some m \<Longrightarrow>
     leader_umsg (sy_server y) m = Some (Admit uuid ip) \<Longrightarrow>
     range_order ks (fmupd uuid ip (sv_peers (sy_server y))) \<Longrightarrow>
     connect_admit (sy_server y) uuid ip ks = (s', adm) \<Longrightarrow>
     sys_step fifo y (y\<lparr>sy_umsg := None, sy_server := s', sy_admissions := (uuid, adm, port) # sy_admissions y\<rparr>)"
| sys_admitted: "(uuid, adm, port) \<in> set (sy_admissions y) \<Longrightarrow>
     connect_switch (sy_server y) uuid adm port = Some (s', effs) \<Longrightarrow>
     sys_step fifo y (update (y\<lparr>sy_admissions := remove1 (uuid, adm, port) (sy_admissions y)\<rparr>) s' effs)"
| sys_rejected: "(uuid, adm, port) \<in> set (sy_admissions y) \<Longrightarrow>
     sys_step fifo y (y\<lparr>sy_server := connect_failed (sy_server y) uuid,
       sy_admissions := remove1 (uuid, adm, port) (sy_admissions y)\<rparr>)"
| sys_tick: "(FOLLOWER, leader) \<in> set (sy_alive y) \<Longrightarrow>
     follower_tick (sy_server y) leader lastHeartBeat now = (s', effs, goes_on) \<Longrightarrow>
     sys_step fifo y (update y s' effs)"
| sys_session: "mc_section (sv_rm (sy_server y)) ms m' \<Longrightarrow> rm_quit m' = rm_quit (sv_rm (sy_server y)) \<Longrightarrow>
     sys_step fifo y (y\<lparr>sy_server := (sy_server y)\<lparr>sv_rm := m'\<rparr>\<rparr>)"

section \<open>What an operation may change\<close>

text \<open>
  Every operation but the main loop leaves the listener, its state and the beacon alone, and moves the
  machine along one transition, whose action it starts, or not at all.
\<close>

definition moves :: "Server \<Rightarrow> Server \<Rightarrow> effect list \<Rightarrow> bool" where
  "moves s s' effs \<longleftrightarrow> sv_id s' = sv_id s \<and> sv_listener s' = sv_listener s \<and> sv_state s' = sv_state s \<and>
     sv_broadcaster s' = sv_broadcaster s \<and>
     (started effs = [] \<and> sv_sm s' = sv_sm s \<or>
      (\<exists>a args. started effs = [(a, args)] \<and> endpoints a = (sv_sm s, sv_sm s')))"

lemma started_simps [simp]:
  "started [] = []" "started (Run_Action a args # effs) = (a, args) # started effs"
  "started (To_stateChan st # effs) = started effs" "started (Unicast_To ip u d # effs) = started effs"
  "started (Retransmit enc f # effs) = started effs" "started (Listen_Multicast # effs) = started effs"
  "started (Start_Heartbeat ip # effs) = started effs" "started (To_uMsgChan m # effs) = started effs"
  "started (To_applicationMsgChan l # effs) = started effs"
  "started (Close_Quit st # effs) = started effs" "started (Hold_Line l # effs) = started effs"
  "started (effs @ effs') = started effs @ started effs'"
  by (simp_all add: started_def)

lemma started_unicasts [simp]: "started (map (\<lambda>u. Unicast_To (f u) (g u) d) us) = []"
  by (induction us) simp_all

lemma started_tell_others [simp]: "started (tell_others l u a d) = []"
proof -
  have "started (map (\<lambda>(uuid, ip). Unicast_To ip uuid d) ps) = []" for ps
    by (induction ps) auto
  then show ?thesis by (simp add: tell_others_def)
qed

lemma moves_refl: "started effs = [] \<Longrightarrow> moves s s effs"
  by (simp add: moves_def)

lemma sm_ChangeTo_sm:
  "sm_ChangeTo s t args = (s\<lparr>sv_sm := fst (ChangeTo (sv_sm s) t)\<rparr>,
     case snd (ChangeTo (sv_sm s) t) of None \<Rightarrow> [] | Some a \<Rightarrow> [Run_Action a args])"
  by (simp add: sm_ChangeTo_def split: prod.split option.split)

lemma sm_ChangeTo_moves: "sm_ChangeTo s t args = (s', effs) \<Longrightarrow> moves s s' effs"
proof (cases "snd (ChangeTo (sv_sm s) t)")
  case None
  then have "fst (ChangeTo (sv_sm s) t) = sv_sm s" by (simp add: ChangeTo_state allowed_def)
  moreover assume "sm_ChangeTo s t args = (s', effs)"
  ultimately show ?thesis using None by (auto simp: sm_ChangeTo_sm moves_def)
next
  case (Some a)
  then have "fst (ChangeTo (sv_sm s) t) = t" by (simp add: ChangeTo_state allowed_def)
  moreover have "endpoints a = (sv_sm s, t)" using Some ChangeTo_action by blast
  moreover assume "sm_ChangeTo s t args = (s', effs)"
  ultimately show ?thesis using Some by (auto simp: sm_ChangeTo_sm moves_def)
qed

text \<open>The same after fields that the machine does not look at have changed.\<close>

lemma moves_from:
  "moves s1 s' effs \<Longrightarrow> sv_id s1 = sv_id s \<Longrightarrow> sv_listener s1 = sv_listener s \<Longrightarrow>
   sv_state s1 = sv_state s \<Longrightarrow> sv_broadcaster s1 = sv_broadcaster s \<Longrightarrow> sv_sm s1 = sv_sm s \<Longrightarrow> moves s s' effs"
  by (simp add: moves_def)

lemma operations_move:
  "after_listening s found = (s', effs) \<Longrightarrow> moves s s' effs"
  "leader_to_init s args = (s', effs) \<Longrightarrow> moves s s' effs"
  "election_check s = (s', effs, again) \<Longrightarrow> moves s s' effs"
  "election_recheck s = (s', effs) \<Longrightarrow> moves s s' effs"
  "leader_broadcast s b = (s', effs) \<Longrightarrow> moves s s' effs"
  "leader_umsg s m = Some (Changed s' effs) \<Longrightarrow> moves s s' effs"
  "follower_tick s leader last_hb now = (s', effs, goes_on) \<Longrightarrow> moves s s' effs"
  by (auto simp: after_listening_def leader_to_init_def election_check_def election_recheck_def
      leader_broadcast_def leader_umsg_def follower_tick_def Let_def
      split: option.splits if_splits prod.splits sum.splits
      intro: sm_ChangeTo_moves moves_refl)

lemma session_operations_move:
  "become_follower s args = Some (s', effs) \<Longrightarrow> moves s s' effs"
  "multicast_line s ks l = Some (s', effs) \<Longrightarrow> moves s s' effs"
  "handleDeadServer s uuid ks = Some (s', effs) \<Longrightarrow> moves s s' effs"
  "connect_switch s uuid adm port = Some (s', effs) \<Longrightarrow> moves s s' effs"
  "dispatch_unicast s m = Some (s', effs) \<Longrightarrow> moves s s' effs"
  by (auto simp: become_follower_def joinMulticastFromPeerInfo_def multicast_line_def handleDeadServer_def
      connect_switch_def dispatch_unicast_def enter_session_def moves_def Let_def
      split: option.splits if_splits prod.splits sum.splits)

lemma addPeers_keeps:
  "addPeersFromPeerInfo s m = Some s1 \<Longrightarrow> \<exists>peers. s1 = s\<lparr>sv_peers := peers\<rparr>"
  by (auto simp: addPeersFromPeerInfo_def split: sum.splits)

lemma asked_leader_moves: "asked_leader s b sent info = Some (s', effs) \<Longrightarrow> moves s s' effs"
  by (auto simp: asked_leader_def split: if_splits option.splits
      dest!: addPeers_keeps intro: sm_ChangeTo_moves moves_from [OF sm_ChangeTo_moves])

lemma announce_victory_moves:
  assumes "announce_victory s ks = Some (s', effs)" shows "moves s s' effs"
proof -
  obtain rm enc frame effs' where "sm_ChangeTo (s\<lparr>sv_rm := rm\<rparr>) LEADER no_args = (s', effs')"
    "effs = Retransmit enc frame # effs'"
    using assms by (auto simp: announce_victory_def split: option.splits prod.splits)
  then show ?thesis
    using moves_from [OF sm_ChangeTo_moves, of "s\<lparr>sv_rm := rm\<rparr>" LEADER no_args s' effs' s]
    by (simp add: moves_def)
qed

lemma dispatch_multicast_moves:
  assumes "dispatch_multicast s x = Some (s', effs)" shows "moves s s' effs"
proof -
  consider "effs = []" "s' = s" | peers where "effs = []" "s' = s\<lparr>sv_peers := peers\<rparr>"
    | l where "effs = [To_applicationMsgChan l]" "s' = s" | "effs = []" "s' = s\<lparr>sv_leaderID := mc_UUID x\<rparr>"
    | "sm_ChangeTo (s\<lparr>sv_leaderID := mc_UUID x\<rparr>) FOLLOWER no_args = (s', effs)"
    using assms by (auto simp: dispatch_multicast_def Let_def split: if_splits sum.splits)
  then show ?thesis
    by cases (auto simp: moves_def [of s s "[]"] moves_def [of s _ "[To_applicationMsgChan _]"]
        moves_def [of s "s\<lparr>sv_peers := _\<rparr>" "[]"] moves_def [of s "s\<lparr>sv_leaderID := _\<rparr>" "[]"]
        intro: moves_from [OF sm_ChangeTo_moves])
qed


text \<open>A step is an operation that moves the machine, or the main loop.\<close>

definition moved :: "system \<Rightarrow> system \<Rightarrow> bool" where
  "moved y y' \<longleftrightarrow> (\<exists>effs. moves (sy_server y) (sy_server y') effs \<and>
     sy_announcing y' = sy_announcing y @ started effs)"

lemma moved_update:
  "moves (sy_server y) s' effs \<Longrightarrow> sy_announcing z = sy_announcing y \<Longrightarrow> moved y (update z s' effs)"
  by (auto simp: moved_def update_def)

lemma moved_quietly:
  "moves (sy_server y) (sy_server y') [] \<Longrightarrow> sy_announcing y' = sy_announcing y \<Longrightarrow> moved y y'"
  unfolding moved_def by (rule exI [of _ "[]"]) simp

lemmas all_operations_move = operations_move session_operations_move asked_leader_moves
  announce_victory_moves dispatch_multicast_moves

lemma quiet_steps_move:
  "connect_admit s uuid ip ks = (s', adm) \<Longrightarrow> moves s s' []"
  "moves s (connect_failed s uuid) []" "moves s (election_reply s uuid) []" "moves s (s\<lparr>sv_rm := m\<rparr>) []"
  by (auto simp: connect_admit_def connect_failed_def election_reply_def moves_def Let_def)

lemma sys_step_cases:
  assumes "sys_step fifo y y'"
  shows "moved y y' \<or>
    (\<exists>xs a args ys ks effs. sy_announcing y = xs @ (a, args) # ys \<and> (fifo \<longrightarrow> xs = []) \<and>
      main_loop (sy_server y) (announced_state a) ks = Returns (sy_server y', effs) \<and>
      sy_announcing y' = xs @ ys)"
  using assms
proof (induction rule: sys_step.induct)
  case (sys_main y xs a args ys ks s' effs)
  then show ?case
    by (intro disjI2 exI [of _ xs] exI [of _ a] exI [of _ args] exI [of _ ys] exI [of _ ks] exI [of _ effs]) simp
qed (rule disjI1, ((rule moved_update, erule all_operations_move, simp) |
    (rule moved_quietly, (simp add: quiet_steps_move moves_refl; fail), simp) |
    (rule moved_quietly, (auto dest: quiet_steps_move(1))[2])))+

end
