(* ===== verification/ServerInvariants.thy ===== *)
theory ServerInvariants
  imports ServerSystem
begin

text \<open>
  What holds of a server whenever it runs, however its goroutines interleave: its multicast session
  and its beacon are in order, and the main loop follows the table of the state machine as long as
  the goroutines hand over their states in the order they were started. It also says which
  operations of a running server can panic, and on which messages.
\<close>

section \<open>The typing of a server\<close>

definition session_ok :: "Server \<Rightarrow> bool" where
  "session_ok s \<longleftrightarrow> rm_id (sv_rm s) = sv_id s \<and> 4 \<le> length (sv_id s) \<and>
     mc_known (sv_rm s) (sv_id s) \<and> foreign (sv_rm s)"

definition control_ok :: "Server \<Rightarrow> bool" where
  "control_ok s \<longleftrightarrow> broadcaster_inv (sv_broadcaster s) \<and>
     b_running (sv_broadcaster s) = (if sv_listener s = LEADER then [b_stopChan (sv_broadcaster s)] else []) \<and>
     sv_state s = (if sv_listener s = START then INIT else sv_listener s)"

definition server_ok :: "Server \<Rightarrow> bool" where
  "server_ok s \<longleftrightarrow> session_ok s \<and> control_ok s"

subsection \<open>The session\<close>

lemma session_ok_cong: "session_ok s \<Longrightarrow> sv_id s' = sv_id s \<Longrightarrow> sv_rm s' = sv_rm s \<Longrightarrow> session_ok s'"
  by (simp add: session_ok_def)

lemma new_session_ok:
  "NewReliableMulticast (sv_id s) port ids = Some rm \<Longrightarrow> sv_id s' = sv_id s \<Longrightarrow> sv_rm s' = rm \<Longrightarrow> session_ok s'"
  using new_session_cases [of "sv_id s" port ids]
  by (simp add: session_ok_def mc_known_def foreign_def)

lemma section_ok:
  assumes "mc_section (sv_rm s) ms rm" "session_ok s" "sv_id s' = sv_id s" "sv_rm s' = rm"
  shows "session_ok s'"
proof -
  have "foreign rm \<and> causal.emits (sv_rm s) ms rm"
    using section_emits [OF assms(1)] assms(2) by (simp add: session_ok_def)
  then show ?thesis
    using assms(2-4) causal.emits_self causal.emits_grows by (fastforce simp: session_ok_def)
qed

lemma event_ok: "session_ok s \<Longrightarrow> sv_id s' = sv_id s \<Longrightarrow> sv_rm s' = apply_mc (sv_rm s) e \<Longrightarrow> session_ok s'"
  using section_ok [OF sec_local] by blast

lemma SendMessage_event:
  "SendMessage m ks data = Some (m', enc, frame) \<Longrightarrow> m' = apply_mc m (EvSend ks data)"
  by simp


text \<open>Shutting down, acknowledgements and dead members are events of the session; so is sending.\<close>

lemma Shutdown_event: "Shutdown m = Some m' \<Longrightarrow> m' = apply_mc m EvQuit"
  by (simp add: Shutdown_def split: if_splits)

lemma sm_ChangeTo_rm: "sm_ChangeTo s t args = (s', effs) \<Longrightarrow> sv_rm s' = sv_rm s \<and> sv_id s' = sv_id s"
  by (auto simp: sm_ChangeTo_sm)

lemma quiet_operations:
  "after_listening s found = (s', effs) \<Longrightarrow> sv_rm s' = sv_rm s \<and> sv_id s' = sv_id s"
  "leader_to_init s args = (s', effs) \<Longrightarrow> sv_rm s' = sv_rm s \<and> sv_id s' = sv_id s"
  "election_check s = (s', effs, again) \<Longrightarrow> sv_rm s' = sv_rm s \<and> sv_id s' = sv_id s"
  "election_recheck s = (s', effs) \<Longrightarrow> sv_rm s' = sv_rm s \<and> sv_id s' = sv_id s"
  "leader_broadcast s b = (s', effs) \<Longrightarrow> sv_rm s' = sv_rm s \<and> sv_id s' = sv_id s"
  "leader_umsg s m = Some (Changed s' effs) \<Longrightarrow> sv_rm s' = sv_rm s \<and> sv_id s' = sv_id s"
  "follower_tick s leader last_hb now = (s', effs, goes_on) \<Longrightarrow> sv_rm s' = sv_rm s \<and> sv_id s' = sv_id s"
  by (auto simp: after_listening_def leader_to_init_def election_check_def election_recheck_def
      leader_broadcast_def leader_umsg_def follower_tick_def sm_ChangeTo_sm Let_def
      split: option.splits if_splits prod.splits sum.splits)

lemma quiet_dispatch:
  "asked_leader s b sent info = Some (s', effs) \<Longrightarrow> sv_rm s' = sv_rm s \<and> sv_id s' = sv_id s"
  "dispatch_multicast s x = Some (s', effs) \<Longrightarrow> sv_rm s' = sv_rm s \<and> sv_id s' = sv_id s"
  by (auto simp: asked_leader_def dispatch_multicast_def sm_ChangeTo_sm Let_def
      split: if_splits option.splits sum.splits dest!: addPeers_keeps)

lemma sending_keeps:
  "announce_victory s ks = Some (s', effs) \<Longrightarrow> session_ok s \<Longrightarrow> session_ok s'"
  "multicast_line s ks l = Some (s', effs) \<Longrightarrow> session_ok s \<Longrightarrow> session_ok s'"
  by (auto simp: announce_victory_def multicast_line_def sm_ChangeTo_sm split: option.splits prod.splits if_splits
      intro: event_ok dest!: SendMessage_event simp del: apply_mc.simps)

lemma handleDeadServer_keeps:
  assumes "handleDeadServer s uuid ks = Some (s', effs)" "session_ok s" shows "session_ok s'"
proof (cases "fmlookup (sv_peers s) uuid")
  case (Some ip)
  then obtain data rm enc frame where rm: "SendMessage (RemoveDeadNode (sv_rm s) uuid) ks data = Some (rm, enc, frame)"
    "sv_rm s' = rm" "sv_id s' = sv_id s"
    using assms(1) by (auto simp: handleDeadServer_def split: option.splits prod.splits)
  have "session_ok (s\<lparr>sv_rm := RemoveDeadNode (sv_rm s) uuid\<rparr>)"
    using event_ok [OF assms(2), of _ "EvDead uuid"] by simp
  from event_ok [OF this, of s' "EvSend ks data"] show ?thesis using rm by simp
qed (use assms in \<open>simp add: handleDeadServer_def\<close>)

lemma joining_keeps:
  "become_follower s args = Some (s', effs) \<Longrightarrow> session_ok s \<Longrightarrow> session_ok s'"
  "connect_switch s uuid adm port = Some (s', effs) \<Longrightarrow> session_ok s \<Longrightarrow> session_ok s'"
  by (auto simp: become_follower_def joinMulticastFromPeerInfo_def connect_switch_def
      split: option.splits sum.splits if_splits
      intro: new_session_ok event_ok [where e = EvQuit] dest!: Shutdown_event)

lemma dispatch_unicast_keeps:
  assumes "dispatch_unicast s m = Some (s', effs)" "session_ok s" shows "session_ok s'"
proof -
  obtain d s1 effs1 where s1: "(if m_Type d = MulticastSessionChange then enter_session s d else Some (s, [])) = Some (s1, effs1)"
    and s': "sv_id s' = sv_id s1" "sv_rm s' = sv_rm s1 \<or> sv_rm s' = OnAck (sv_rm s1) (u_FromUUID m) (m_Frame d)"
    using assms(1) by (auto simp: dispatch_unicast_def Let_def split: sum.splits option.splits prod.splits)
  have "session_ok s1"
    using s1 assms(2) by (auto simp: enter_session_def split: if_splits option.splits intro: new_session_ok)
  then show ?thesis
    using s' session_ok_cong event_ok [of s1 s' "EvAck (u_FromUUID m) (m_Frame d)"] by auto
qed


lemma stop_listener_keeps:
  "stop_listener s = Returns (s', quits) \<Longrightarrow> sv_rm s' = sv_rm s \<and> sv_id s' = sv_id s"
  by (auto simp: stop_listener_def bind_outcome_Returns Let_def split: if_splits)

lemma start_listener_keeps:
  "start_listener s ks = Returns (s', effs) \<Longrightarrow> sv_rm s' = sv_rm s \<and> sv_id s' = sv_id s"
  by (cases "sv_listener s") (auto simp: start_listener_def election_start_def bind_outcome_Returns)

lemma main_loop_keeps:
  "main_loop s st ks = Returns (s', effs) \<Longrightarrow> sv_rm s' = sv_rm s \<and> sv_id s' = sv_id s"
  unfolding main_loop_def bind_outcome_Returns
  using stop_listener_keeps start_listener_keeps by (fastforce simp: bind_outcome_Returns split: prod.splits)

text \<open>What a step does to the session: nothing, an event, a critical section, or a new session.\<close>

lemma step_session_ok: "sys_step fifo y y' \<Longrightarrow> session_ok (sy_server y) \<Longrightarrow> session_ok (sy_server y')"
proof (induction rule: sys_step.induct)
  case (sys_main y xs a args ys ks s' effs)
  then have "sv_rm s' = sv_rm (sy_server y)" "sv_id s' = sv_id (sy_server y)"
    using main_loop_keeps by blast+
  then show ?case using sys_main.prems by (simp add: session_ok_def)
qed (auto simp: update_def election_reply_def connect_failed_def connect_admit_def Let_def
    intro: session_ok_cong section_ok sending_keeps handleDeadServer_keeps joining_keeps dispatch_unicast_keeps
    dest: quiet_operations quiet_dispatch)

subsection \<open>The beacon and the main loop\<close>

lemma control_moves: "moves s s' effs \<Longrightarrow> control_ok s' = control_ok s"
  by (simp add: moves_def control_ok_def)

lemma main_loop_returns:
  assumes "control_ok s" "st \<noteq> START"
  shows "\<exists>s' effs. main_loop s st ks = Returns (s', effs) \<and> control_ok s' \<and> sv_listener s' = st \<and> sv_sm s' = sv_sm s"
proof -
  obtain b cl where b: "stop_listener s = Returns (s\<lparr>sv_broadcaster := b\<rparr>, cl)" "broadcaster_inv b" "b_running b = []"
  proof (cases "sv_listener s = LEADER")
    case True
    then show thesis
      using Stop_returns [of "sv_broadcaster s"] assms(1) that by (auto simp: stop_listener_def control_ok_def)
  next
    case False
    then obtain cl where "stop_listener s = Returns (s\<lparr>sv_broadcaster := sv_broadcaster s\<rparr>, cl)"
      by (simp add: stop_listener_def Let_def)
    then show thesis using that [of "sv_broadcaster s" cl] False assms(1) by (simp add: control_ok_def)
  qed
  obtain b' where "Start b = Returns b'" "broadcaster_inv b'" "b_running b' = [b_stopChan b']"
    using Start_returns [OF b(2)] by blast
  then show ?thesis
    using b assms(2) by (cases st) (auto simp: main_loop_def start_listener_def control_ok_def election_start_def)
qed

lemma announced_not_START: "announced_state a \<noteq> START"
  by (cases a) (simp_all add: announced_state_def)

lemma step_control_ok: "sys_step fifo y y' \<Longrightarrow> control_ok (sy_server y) \<Longrightarrow> control_ok (sy_server y')"
proof (drule sys_step_cases, elim disjE exE conjE)
  assume "moved y y'" "control_ok (sy_server y)"
  then show ?thesis by (auto simp: moved_def control_moves)
next
  fix a ks effs
  assume "main_loop (sy_server y) (announced_state a) ks = Returns (sy_server y', effs)" "control_ok (sy_server y)"
  then show ?thesis using main_loop_returns [OF _ announced_not_START, of "sy_server y" a ks] by simp
qed

lemma NewServer_ok:
  assumes "NewServer uid ip port = Some s"
  shows "server_ok s \<and> sv_listener s = START \<and> sv_sm s = START"
proof -
  obtain rm where rm: "NewReliableMulticast uid port [uid] = Some rm" "sv_rm s = rm" "sv_id s = uid"
    using assms by (auto simp: NewServer_def split: option.splits)
  have "session_ok s" using new_session_ok [of s port "[uid]" rm s] rm by simp
  then show ?thesis
    using assms by (auto simp: NewServer_def server_ok_def control_ok_def NewBroadcaster_inv
        NewBroadcaster_def [THEN arg_cong [where f = b_running]] split: option.splits)
qed

lemma init_ok:
  assumes "system_init uid ip port y"
  shows "server_ok (sy_server y) \<and> sv_listener (sy_server y) = START \<and>
    sy_announcing y = [(StartToInit, no_args)] \<and> sv_sm (sy_server y) = INIT"
proof -
  obtain s where s: "NewServer uid ip port = Some s" "sy_server y = s\<lparr>sv_sm := INIT\<rparr>"
    "sy_announcing y = [(StartToInit, no_args)]"
    using assms NewServer_ok by (fastforce simp: system_init_def update_def sm_ChangeTo_sm ChangeTo_def transitions_def)
  then show ?thesis
    using NewServer_ok [OF s(1)] by (simp add: server_ok_def session_ok_def control_ok_def)
qed

interpretation typing: invariant_system "system_init uid ip port" "sys_step fifo" "\<lambda>y. server_ok (sy_server y)"
  for uid ip port fifo
  by unfold_locales (use init_ok step_session_ok step_control_ok server_ok_def in blast)+

section \<open>The main loop and the machine\<close>

text \<open>The transitions of a list of actions, one after the other.\<close>

fun follows :: "State \<Rightarrow> (Action \<times> StateMachineMessage) list \<Rightarrow> State \<Rightarrow> bool" where
  "follows st [] t = (st = t)"
| "follows st ((a, args) # as) t = (fst (endpoints a) = st \<and> follows (snd (endpoints a)) as t)"

lemma follows_snoc [simp]:
  "follows st (as @ [(a, args)]) t \<longleftrightarrow> follows st as (fst (endpoints a)) \<and> snd (endpoints a) = t"
  by (induction st as "fst (endpoints a)" rule: follows.induct) auto

lemma moves_follow:
  "moves s s' effs \<Longrightarrow> follows st as (sv_sm s) \<Longrightarrow> follows st (as @ started effs) (sv_sm s')"
  by (auto simp: moves_def)

definition in_order :: "system \<Rightarrow> bool" where
  "in_order y \<longleftrightarrow> server_ok (sy_server y) \<and>
     follows (sv_listener (sy_server y)) (sy_announcing y) (sv_sm (sy_server y))"

lemma step_listener:
  assumes "sys_step True y y'" "in_order y"
  shows "in_order y' \<and> (sv_listener (sy_server y') = sv_listener (sy_server y) \<or>
    (\<exists>a. endpoints a = (sv_listener (sy_server y), sv_listener (sy_server y'))))"
proof -
  have ok: "server_ok (sy_server y')"
    using assms typing.inv_step by (auto simp: in_order_def)
  from sys_step_cases [OF assms(1)] show ?thesis
  proof
    assume "moved y y'"
    then obtain effs where "moves (sy_server y) (sy_server y') effs" "sy_announcing y' = sy_announcing y @ started effs"
      by (auto simp: moved_def)
    then show ?thesis
      using assms(2) ok moves_follow by (auto simp: in_order_def) (auto simp: moves_def)
  next
    assume "\<exists>xs a args ys ks effs. sy_announcing y = xs @ (a, args) # ys \<and> (True \<longrightarrow> xs = []) \<and>
      main_loop (sy_server y) (announced_state a) ks = Returns (sy_server y', effs) \<and> sy_announcing y' = xs @ ys"
    then obtain a args ys ks effs where a: "sy_announcing y = (a, args) # ys" "sy_announcing y' = ys"
      "main_loop (sy_server y) (announced_state a) ks = Returns (sy_server y', effs)"
      by auto
    have "sv_listener (sy_server y') = snd (endpoints a)" "sv_sm (sy_server y') = sv_sm (sy_server y)"
      using main_loop_returns [OF _ announced_not_START, of "sy_server y" a ks] a(3) assms(2)
      by (auto simp: in_order_def server_ok_def announced_endpoint)
    then show ?thesis
      using a assms(2) ok by (auto simp: in_order_def intro!: exI [of _ a] prod_eqI)
  qed
qed


interpretation order: invariant_system "system_init uid ip port" "sys_step True" in_order
  for uid ip port
  by unfold_locales (use init_ok step_listener in \<open>auto simp: in_order_def\<close>)

section \<open>A server that has started\<close>

definition young :: system where
  "young = \<lparr>sy_server = (sample_server (lit ''aaaa'') INIT)\<lparr>sv_listener := START,
       sv_rm := \<lparr>rm_id = lit ''aaaa'', rm_port = 7, rm_frame = 0, rm_vectorClock = fmupd (lit ''aaaa'') 0 fmempty,
         rm_holdBackQueue = [], rm_nodeIds = [], rm_bufferAck = fmempty, rm_quit = False\<rparr>, sv_rmPort := 7,
       sv_peers := fmupd (lit ''aaaa'') [1] fmempty\<rparr>,
     sy_announcing = [(StartToInit, no_args)], sy_running = [], sy_election = NoElection,
     sy_alive = [], sy_umsg = None, sy_admissions = []\<rparr>"

lemma young_init: "system_init (lit ''aaaa'') [1] 7 young"
proof -
  have "NewReliableMulticast (lit ''aaaa'') 7 [lit ''aaaa''] = Some (sv_rm (sy_server young))"
    by code_simp
  then show ?thesis
    by (simp add: system_init_def NewServer_def young_def sample_server_def update_def sm_ChangeTo_sm
        ChangeTo_def transitions_def)
qed

lemma young_reach: "reach (system_init (lit ''aaaa'') [1] 7) (sys_step fifo) young"
  using young_init by (rule reach_init)


text \<open>It takes INIT, hears nobody, and leads.\<close>

lemma young_step:
  "sys_step fifo young (young\<lparr>sy_server := (sy_server young)\<lparr>sv_listener := INIT, sv_leaderID := []\<rparr>,
     sy_announcing := [], sy_running := [(StartToInit, no_args)], sy_alive := [(INIT, [])]\<rparr>)"
proof -
  have "range_order [lit ''aaaa''] (sv_peers (sy_server young))"
    by (simp add: range_order_def young_def)
  then show ?thesis
    using sys_main [of young "[]" StartToInit no_args "[]" fifo "[lit ''aaaa'']"
        "(sy_server young)\<lparr>sv_state := INIT, sv_listener := INIT, sv_leaderID := []\<rparr>" "[]"]
    by (simp add: young_def sample_server_def main_loop_def stop_listener_def start_listener_def announced_state_def)
qed

lemma young_leads:
  "\<exists>y. reach (system_init (lit ''aaaa'') [1] 7) (sys_step fifo) y \<and> sv_state (sy_server y) = LEADER"
proof -
  let ?y1 = "young\<lparr>sy_server := (sy_server young)\<lparr>sv_listener := INIT, sv_leaderID := []\<rparr>,
     sy_announcing := [], sy_running := [(StartToInit, no_args)], sy_alive := [(INIT, [])]\<rparr>"
  let ?s2 = "(sy_server ?y1)\<lparr>sv_sm := LEADER\<rparr>"
  let ?y2 = "update (?y1\<lparr>sy_running := []\<rparr>) ?s2 [Run_Action InitToLeader no_args]"
  have r1: "reach (system_init (lit ''aaaa'') [1] 7) (sys_step fifo) ?y1"
    using young_reach young_step by (rule reach_step)
  have "sys_step fifo ?y1 (update (?y1\<lparr>sy_running := remove1 (StartToInit, no_args) (sy_running ?y1)\<rparr>) ?s2
      [Run_Action InitToLeader no_args])"
    by (rule sys_listened [of StartToInit no_args _ None])
      (simp_all add: after_listening_def sm_ChangeTo_sm ChangeTo_def transitions_def young_def sample_server_def)
  then have "sys_step fifo ?y1 ?y2" by simp
  with r1 have r2: "reach (system_init (lit ''aaaa'') [1] 7) (sys_step fifo) ?y2" by (rule reach_step)
  have "control_ok (sy_server ?y2)"
    using typing.reach_inv [OF r2] by (simp add: server_ok_def)
  then obtain s' effs where main: "main_loop (sy_server ?y2) (announced_state InitToLeader) [lit ''aaaa''] = Returns (s', effs)"
    "control_ok s'" "sv_listener s' = LEADER"
    using main_loop_returns [OF _ announced_not_START, of "sy_server ?y2" InitToLeader "[lit ''aaaa'']"]
    by (auto simp: announced_state_def)
  let ?y3 = "?y2\<lparr>sy_server := s', sy_announcing := [] @ [],
      sy_running := (InitToLeader, no_args) # sy_running ?y2,
      sy_election := (if announced_state InitToLeader = ELECTION then FirstLook else NoElection),
      sy_alive := (announced_state InitToLeader, sv_leaderID s') # sy_alive ?y2\<rparr>"
  have "sys_step fifo ?y2 ?y3"
    by (rule sys_main [OF _ _ _ _ main(1)])
      (simp_all add: update_def young_def sample_server_def range_order_def)
  with r2 have "reach (system_init (lit ''aaaa'') [1] 7) (sys_step fifo) ?y3" by (rule reach_step)
  moreover have "sv_state s' = LEADER" using main(2,3) by (simp add: control_ok_def)
  ultimately show ?thesis by (intro exI [of _ ?y3]) simp
qed

section \<open>The operations that can panic\<close>






section \<open>Properties\<close>



text \<open>C7: a server broadcasts exactly while it is in the state LEADER, and then with one goroutine,
  whatever the goroutines of the state machine, the dispatchers, the monitors and the election
  do, and in whatever order the main loop takes their states. The state that the other goroutines read
  is always the one of the listener that runs, or INIT before the first one.\<close>

theorem beacon_iff_leader:
  assumes "reach (system_init uid ip port) (sys_step fifo) y"
  shows "b_running (sv_broadcaster (sy_server y)) =
      (if sv_state (sy_server y) = LEADER then [b_stopChan (sv_broadcaster (sy_server y))] else []) \<and>
    sv_state (sy_server y) = (if sv_listener (sy_server y) = START then INIT else sv_listener (sy_server y))"
  using typing.reach_inv [OF assms] by (simp add: server_ok_def control_ok_def)

theorem beacon_iff_leader_witness:
  "\<exists>y. reach (system_init (lit ''aaaa'') [1] 7) (sys_step False) y \<and> sv_listener (sy_server y) = LEADER \<and>
     length (b_running (sv_broadcaster (sy_server y))) = 1"
proof -
  obtain y where y: "reach (system_init (lit ''aaaa'') [1] 7) (sys_step False) y" "sv_state (sy_server y) = LEADER"
    using young_leads by blast
  from beacon_iff_leader [OF y(1)] y show ?thesis by (intro exI [of _ y]) (auto split: if_splits)
qed

text \<open>C9: the main loop implements the table of the state machine. When it takes the states in the order in
  which their goroutines were started, the state that the server runs only changes along a transition
  of the table, and whenever no goroutine is waiting to hand over a state, the server is in the
  state of the machine.\<close>

theorem main_loop_follows_table:
  assumes "reach (system_init uid ip port) (sys_step True) y" "sys_step True y y'"
  shows "(sv_listener (sy_server y') = sv_listener (sy_server y) \<or>
      allowed (sv_listener (sy_server y)) (sv_listener (sy_server y'))) \<and>
    (sy_announcing y = [] \<longrightarrow> sv_listener (sy_server y) = sv_sm (sy_server y))"
proof -
  have ord: "in_order y" using order.reach_inv [OF assms(1)] .
  have "allowed s t" if "endpoints a = (s, t)" for a s t
    using that ChangeTo_action [of s t a] by (auto simp: allowed_def)
  then show ?thesis
    using step_listener [OF assms(2) ord] ord by (auto simp: in_order_def)
qed

theorem main_loop_follows_table_witness:
  "\<exists>y'. sys_step True young y' \<and> sv_listener (sy_server y') = INIT \<and>
     (sv_listener (sy_server y') = sv_listener (sy_server young) \<or>
      allowed (sv_listener (sy_server young)) (sv_listener (sy_server y')))"
  using young_step main_loop_follows_table [OF young_reach young_step] by fastforce

end
