(* ===== verification/ServerRaces.thy ===== *)
theory ServerRaces
  imports ServerInvariants
begin

text \<open>
  Runs of one server in which its goroutines get in each other's way: two states handed to the main
  loop in the wrong order, and a forwarded message that nobody takes.
\<close>

section \<open>Runs\<close>

text \<open>The states a server reaches from \<open>y\<close>.\<close>

abbreviation runs :: "bool \<Rightarrow> system \<Rightarrow> system \<Rightarrow> bool" where
  "runs fifo y \<equiv> reach (\<lambda>z. z = y) (sys_step fifo)"

lemma runs_self: "runs fifo y y"
  by (simp add: reach_init)

lemma runs_step: "runs fifo y z \<Longrightarrow> sys_step fifo z w \<Longrightarrow> runs fifo y w"
  by (rule reach_step)

section \<open>An election that is overtaken\<close>

lemma sm_asks [simp]:
  "sv_sm s = FOLLOWER \<Longrightarrow> sm_ChangeTo s ELECTION args = (s\<lparr>sv_sm := ELECTION\<rparr>, [Run_Action FollowerToElection args])"
  "sv_sm s = ELECTION \<Longrightarrow> sm_ChangeTo s FOLLOWER args = (s\<lparr>sv_sm := FOLLOWER\<rparr>, [Run_Action ElectionToFollower args])"
  "sv_sm s = FOLLOWER \<Longrightarrow> sm_ChangeTo s BECOME_LEADER args = (s, [])"
  "sv_sm s = BECOME_FOLLOWER \<Longrightarrow>
     sm_ChangeTo s FOLLOWER args = (s\<lparr>sv_sm := FOLLOWER\<rparr>, [Run_Action BecomeFollowerToFollower args])"
  by (simp_all add: sm_ChangeTo_sm ChangeTo_def transitions_def)

lemma nobody_answered: "\<not> anyone_alive (fst (election_start s ks))"
  using anyone_alive_replies [of s ks "[]"] by simp

lemma follower_takes:
  "sv_listener s = FOLLOWER \<Longrightarrow>
     main_loop s FOLLOWER ks = Returns (s\<lparr>sv_state := FOLLOWER, sv_listener := FOLLOWER\<rparr>,
       [Close_Quit FOLLOWER, Start_Heartbeat (map_get [] (sv_peers s) (sv_leaderID s))])"
  "sv_listener s = FOLLOWER \<Longrightarrow>
     main_loop s ELECTION ks =
       (case election_start (s\<lparr>sv_state := ELECTION, sv_listener := ELECTION\<rparr>) ks of
          (s', effs) \<Rightarrow> Returns (s', Close_Quit FOLLOWER # effs))"
  by (simp_all add: main_loop_def stop_listener_def start_listener_def split: prod.split)

definition following :: "system \<Rightarrow> gostring \<Rightarrow> bool" where
  "following y leader \<longleftrightarrow> sv_sm (sy_server y) = FOLLOWER \<and> sv_state (sy_server y) = FOLLOWER \<and>
     sv_listener (sy_server y) = FOLLOWER \<and> sv_leaderID (sy_server y) = leader \<and>
     sy_announcing y = [] \<and> sy_election y = NoElection \<and> (FOLLOWER, leader) \<in> set (sy_alive y)"

lemma overtaken:
  fixes x :: MMessage
  assumes y: "following y leader"
    and x: "mc_UUID x \<noteq> sv_id (sy_server y)" "Decode (mc_Message x) = Inr d" "m_Type d = ElectionVictory"
  shows "\<exists>z. runs False y z \<and> sv_sm (sy_server z) = FOLLOWER \<and> sv_state (sy_server z) = ELECTION \<and>
    sy_announcing z = [] \<and> sy_election z = NoElection"
proof -
  let ?s = "sy_server y"
  obtain ks where ks: "range_order ks (sv_peers ?s)" using range_order_exists by blast
  let ?s1 = "?s\<lparr>sv_sm := ELECTION\<rparr>"
  let ?y1 = "update y ?s1 [Run_Action FollowerToElection no_args]"
  let ?s2 = "?s1\<lparr>sv_leaderID := mc_UUID x, sv_sm := FOLLOWER\<rparr>"
  let ?y2 = "update ?y1 ?s2 [Run_Action ElectionToFollower no_args]"
  let ?s3 = "?s2\<lparr>sv_state := FOLLOWER, sv_listener := FOLLOWER\<rparr>"
  let ?y3 = "?y2\<lparr>sy_server := ?s3, sy_announcing := [(FollowerToElection, no_args)],
      sy_running := (ElectionToFollower, no_args) # sy_running y, sy_election := NoElection,
      sy_alive := (FOLLOWER, mc_UUID x) # sy_alive y\<rparr>"
  let ?s4 = "fst (election_start (?s3\<lparr>sv_state := ELECTION, sv_listener := ELECTION\<rparr>) ks)"
  let ?y4 = "?y3\<lparr>sy_server := ?s4, sy_announcing := [],
      sy_running := (FollowerToElection, no_args) # sy_running ?y3, sy_election := FirstLook,
      sy_alive := (ELECTION, sv_leaderID ?s4) # sy_alive ?y3\<rparr>"
  note y = y [unfolded following_def]
  have r1: "runs False y ?y1"
    by (rule runs_step [OF runs_self sys_tick [of leader y 0 501 _ _ False]])
      (use y in \<open>auto simp: follower_tick_def\<close>)
  have r2: "runs False y ?y2"
    by (rule runs_step [OF r1 sys_multicast [of _ x]])
      (use y x in \<open>simp add: update_def dispatch_multicast_def Let_def message_types\<close>)
  have "sys_step False ?y2 (?y2\<lparr>sy_server := ?s3, sy_announcing := [(FollowerToElection, no_args)] @ [],
      sy_running := (ElectionToFollower, no_args) # sy_running ?y2,
      sy_election := (if announced_state ElectionToFollower = ELECTION then FirstLook else NoElection),
      sy_alive := (announced_state ElectionToFollower, sv_leaderID ?s3) # sy_alive ?y2\<rparr>)"
    by (rule sys_main) (use y ks in \<open>simp_all add: update_def announced_state_def follower_takes\<close>)
  then have r3: "runs False y ?y3"
    using runs_step [OF r2] y by (simp add: update_def announced_state_def)
  have "sys_step False ?y3 (?y3\<lparr>sy_server := ?s4, sy_announcing := [] @ [],
      sy_running := (FollowerToElection, no_args) # sy_running ?y3,
      sy_election := (if announced_state FollowerToElection = ELECTION then FirstLook else NoElection),
      sy_alive := (announced_state FollowerToElection, sv_leaderID ?s4) # sy_alive ?y3\<rparr>)"
    by (rule sys_main [where ks = ks])
      (use y ks in \<open>simp_all add: update_def announced_state_def follower_takes election_start_def\<close>)
  then have r4: "runs False y ?y4"
    using runs_step [OF r3] by (simp add: announced_state_def)
  have "election_check ?s4 = (?s4, [], False)"
    by (simp add: election_check_def nobody_answered)
  then have "runs False y (update (?y4\<lparr>sy_election := NoElection\<rparr>) ?s4 [])"
    using runs_step [OF r4 sys_look1 [of ?y4 ?s4 "[]" False]] by simp
  then show ?thesis
    by (intro exI [of _ "update (?y4\<lparr>sy_election := NoElection\<rparr>) ?s4 []"]) (simp add: update_def)
qed

section \<open>A message that nobody takes\<close>

text \<open>Who reads \<open>uMsgChan\<close>: a leader, and a node that waits for its peer table.\<close>

definition reader :: "system \<Rightarrow> bool" where
  "reader y \<longleftrightarrow> (\<exists>leader. (LEADER, leader) \<in> set (sy_alive y)) \<or> (\<exists>args. (InitToBecomeFollower, args) \<in> set (sy_running y))"

lemma step_waits:
  "sys_step fifo y y' \<Longrightarrow> \<not> reader y \<Longrightarrow> sy_umsg y = Some m \<Longrightarrow> sy_umsg y' = Some m"
  by (induction rule: sys_step.induct) (auto simp: reader_def update_def)

definition deaf_step :: "bool \<Rightarrow> system \<Rightarrow> system \<Rightarrow> bool" where
  "deaf_step fifo y y' \<longleftrightarrow> sys_step fifo y y' \<and> \<not> reader y'"

interpretation waiting: invariant_system "\<lambda>z. z = y \<and> \<not> reader y \<and> sy_umsg y = Some m" "deaf_step fifo"
    "\<lambda>z. \<not> reader z \<and> sy_umsg z = Some m" for y m fifo
  by unfold_locales (auto simp: deaf_step_def dest: step_waits)


text \<open>A peer table that a node can take over.\<close>

definition peer_table :: "gostring \<Rightarrow> UMessage \<Rightarrow> bool" where
  "peer_table leader m \<longleftrightarrow> u_FromUUID m = leader \<and>
     (case Decode (u_Message m) of Inl e \<Rightarrow> False
      | Inr d \<Rightarrow> m_Type d = PeerInfo \<and> length (m_PeerIds d) \<le> length (m_PeerIps d))"

lemma peer_table_is_forwarded:
  assumes "peer_table leader m" "sv_state s = BECOME_FOLLOWER"
  shows "dispatch_unicast s m = Some (s, [To_uMsgChan m])"
  using assms
  by (auto simp: peer_table_def dispatch_unicast_def forwarded_def message_types Let_def split: sum.splits)

lemma peer_table_is_awaited: "peer_table leader m \<Longrightarrow> peerInfoFromLeader leader [m] = Some (Some m)"
  by (auto simp: peer_table_def split: sum.splits)

lemma peer_table_is_taken:
  assumes "peer_table leader m"
  shows "\<exists>peers. addPeersFromPeerInfo s m = Some (s\<lparr>sv_peers := peers\<rparr>)"
proof -
  obtain d where "Decode (u_Message m) = Inr d" "length (m_PeerIds d) \<le> length (m_PeerIps d)"
    using assms by (auto simp: peer_table_def split: sum.splits)
  then show ?thesis
    using add_peers_total [of "m_PeerIds d" "m_PeerIps d" fmempty] by (auto simp: addPeersFromPeerInfo_def)
qed

text \<open>A node that has asked the leader \<open>b\<close> to join and waits for the answer.\<close>

definition joining :: "system \<Rightarrow> BMessage \<Rightarrow> bool" where
  "joining y b \<longleftrightarrow> sv_sm (sy_server y) = BECOME_FOLLOWER \<and> sv_state (sy_server y) = BECOME_FOLLOWER \<and>
     sv_listener (sy_server y) = BECOME_FOLLOWER \<and> sy_announcing y = [] \<and> sy_umsg y = None \<and>
     sy_election y = NoElection \<and> (\<forall>leader. (LEADER, leader) \<notin> set (sy_alive y)) \<and>
     (\<exists>args. sy_running y = [(InitToBecomeFollower, args)] \<and> smm_Broadcast args = Some b)"

lemma becomes_follower:
  "sv_listener s = BECOME_FOLLOWER \<Longrightarrow>
     main_loop s FOLLOWER ks = Returns (s\<lparr>sv_state := FOLLOWER, sv_listener := FOLLOWER\<rparr>,
       [Close_Quit BECOME_FOLLOWER, Start_Heartbeat (map_get [] (sv_peers s) (sv_leaderID s))])"
  by (simp add: main_loop_def stop_listener_def start_listener_def)

lemma late_table_waits:
  assumes y: "joining y b" and m: "peer_table (bc_UUID b) m1" "peer_table (bc_UUID b) m2"
  shows "\<exists>z. runs fifo y z \<and> sv_state (sy_server z) = FOLLOWER \<and> \<not> reader z \<and> sy_umsg z = Some m2"
proof -
  let ?s = "sy_server y"
  obtain args where run: "sy_running y = [(InitToBecomeFollower, args)]" "smm_Broadcast args = Some b"
    using y by (auto simp: joining_def)
  note y = y [unfolded joining_def]
  obtain peers where peers: "addPeersFromPeerInfo (?s\<lparr>sv_leaderID := bc_UUID b\<rparr>) m1 =
      Some (?s\<lparr>sv_leaderID := bc_UUID b, sv_peers := peers\<rparr>)"
    using peer_table_is_taken [OF m(1)] by blast
  obtain ks where ks: "range_order ks peers" using range_order_exists by blast
  let ?y1 = "update (y\<lparr>sy_umsg := Some m1\<rparr>) ?s [To_uMsgChan m1]"
  let ?info = "\<lparr>smm_Broadcast = None, smm_Unicast = Some m1\<rparr>"
  let ?s2 = "?s\<lparr>sv_leaderID := bc_UUID b, sv_peers := peers, sv_sm := FOLLOWER\<rparr>"
  let ?y2 = "update (?y1\<lparr>sy_umsg := None, sy_running := []\<rparr>) ?s2 [Run_Action BecomeFollowerToFollower ?info]"
  let ?y3 = "update (?y2\<lparr>sy_umsg := Some m2\<rparr>) ?s2 [To_uMsgChan m2]"
  let ?s4 = "?s2\<lparr>sv_state := FOLLOWER, sv_listener := FOLLOWER\<rparr>"
  have r1: "runs fifo y ?y1"
    using runs_step [OF runs_self sys_unicast [of y m1]] peer_table_is_forwarded [OF m(1)] y
    by (simp add: forwarded_msgs_def)
  have "asked_leader ?s b True (Some m1) = Some (?s2, [Run_Action BecomeFollowerToFollower ?info])"
    using peers y by (simp add: asked_leader_def)
  then have r2: "runs fifo y ?y2"
    using runs_step [OF r1 sys_informed [of args ?y1 b m1]] run peer_table_is_awaited [OF m(1)] y
    by (simp add: update_def del: peerInfoFromLeader.simps)
  have r3: "runs fifo y ?y3"
    using runs_step [OF r2 sys_unicast [of ?y2 m2]] peer_table_is_forwarded [OF m(2), of ?s2] y
    by (simp add: forwarded_msgs_def update_def)
  have "sys_step fifo ?y3 (?y3\<lparr>sy_server := ?s4, sy_announcing := [] @ [],
      sy_running := (BecomeFollowerToFollower, ?info) # sy_running ?y3,
      sy_election := (if announced_state BecomeFollowerToFollower = ELECTION then FirstLook else NoElection),
      sy_alive := (announced_state BecomeFollowerToFollower, sv_leaderID ?s4) # sy_alive ?y3\<rparr>)"
    by (rule sys_main) (use y ks in \<open>simp_all add: update_def announced_state_def becomes_follower\<close>)
  from runs_step [OF r3 this] show ?thesis
    by (rule exI [of _ "?y3\<lparr>sy_server := ?s4, sy_announcing := [] @ [],
      sy_running := (BecomeFollowerToFollower, ?info) # sy_running ?y3,
      sy_election := (if announced_state BecomeFollowerToFollower = ELECTION then FirstLook else NoElection),
      sy_alive := (announced_state BecomeFollowerToFollower, sv_leaderID ?s4) # sy_alive ?y3\<rparr>", OF conjI])
      (use y in \<open>simp add: update_def reader_def announced_state_def\<close>)
qed


section \<open>Sample servers\<close>

definition settled :: "State \<Rightarrow> system" where
  "settled st = \<lparr>sy_server = sample_server (lit ''bbbb'') st, sy_announcing = [],
     sy_running = (if st = BECOME_FOLLOWER
       then [(InitToBecomeFollower, \<lparr>smm_Broadcast = Some \<lparr>bc_UUID = lit ''aaaa'', bc_IP = [1]\<rparr>, smm_Unicast = None\<rparr>)]
       else []),
     sy_election = NoElection, sy_alive = [(st, [])], sy_umsg = None, sy_admissions = []\<rparr>"

lemma sample_peer_table: "\<exists>m. peer_table (lit ''aaaa'') m"
proof -
  obtain c where "Decode c = Inr ((typed_message PeerInfo)\<lparr>m_PeerIds := three_ids,
      m_PeerIps := map (map_get [] (admitted (sample_server (lit ''aaaa'') LEADER) (lit ''cccc'') [3])) three_ids,
      m_Clock := replicate (length three_ids) 0, m_MulticastPort := 7\<rparr>)"
    using announcement [OF sample_table [of "lit ''aaaa''" LEADER] disjI1 [OF refl] refl, of 7] by blast
  then have "peer_table (lit ''aaaa'') (zero_umessage\<lparr>u_Message := c, u_FromUUID := lit ''aaaa''\<rparr>)"
    by (simp add: peer_table_def typed_message_def)
  then show ?thesis by blast
qed

section \<open>Properties\<close>

text \<open>C28: a new leader's victory can leave a follower in an election that it no longer holds. When a follower
  has just missed its leader's beacon and the victory message of another node arrives before the main
  loop has taken the state ELECTION, the main loop may take FOLLOWER first and ELECTION after it
  (both goroutines wait at the same channel). Then the server's state is ELECTION while its
  machine is in FOLLOWER; no goroutine waits to hand over another state, the election has given up
  because the machine has no transition to BECOME_LEADER, and every chat line is held back.\<close>

theorem victory_overtakes_election:
  fixes x :: MMessage
  assumes "following y leader" "mc_UUID x \<noteq> sv_id (sy_server y)"
    and "Decode (mc_Message x) = Inr d" "m_Type d = ElectionVictory"
  shows "\<exists>z. runs False y z \<and> sv_sm (sy_server z) = FOLLOWER \<and> sv_state (sy_server z) = ELECTION \<and>
    sy_announcing z = [] \<and> sy_election z = NoElection \<and>
    (\<forall>ks line. multicast_line (sy_server z) ks line = Some (sy_server z, [Hold_Line line]))"
proof -
  obtain z where "runs False y z" "sv_sm (sy_server z) = FOLLOWER" "sv_state (sy_server z) = ELECTION"
    "sy_announcing z = []" "sy_election z = NoElection"
    using overtaken [OF assms] by blast
  then show ?thesis
    by (intro exI [of _ z]) (simp add: multicast_line_def may_multicast_def)
qed

theorem victory_overtakes_election_witness:
  "\<exists>z. runs False (settled FOLLOWER) z \<and> sv_sm (sy_server z) = FOLLOWER \<and> sv_state (sy_server z) = ELECTION"
proof -
  have "following (settled FOLLOWER) []"
    by (simp add: following_def settled_def sample_server_def)
  moreover have "mc_UUID (zero_mmessage\<lparr>mc_UUID := lit ''aaaa'', mc_Message := [3]\<rparr>) \<noteq> sv_id (sy_server (settled FOLLOWER))"
    by (simp add: settled_def sample_server_def zero_mmessage_def lit_def)
  moreover have "Decode (mc_Message (zero_mmessage\<lparr>mc_UUID := lit ''aaaa'', mc_Message := [3]\<rparr>)) =
      Inr (typed_message ElectionVictory)"
    by (simp add: Decode_def codec_simps message_types Let_def)
  moreover have "m_Type (typed_message ElectionVictory) = ElectionVictory"
    by (simp add: typed_message_def)
  ultimately show ?thesis using victory_overtakes_election by blast
qed

text \<open>C29: a second peer table blocks a follower's unicast dispatcher. A node that waits to join may get two
  tables, when it asked twice. The dispatcher hands the first over and, as long as the server's
  state is still BECOME_FOLLOWER, waits at the unbuffered \<open>uMsgChan\<close> with the second one; the server
  becomes a follower, and the dispatcher stays at that message for as long as the server neither
  becomes a leader nor asks a leader again: it takes no acknowledgement and no session change.\<close>

theorem late_peer_info_blocks:
  assumes "joining y b" "peer_table (bc_UUID b) m1" "peer_table (bc_UUID b) m2"
  shows "\<exists>z. runs fifo y z \<and> sv_state (sy_server z) = FOLLOWER \<and> sy_umsg z = Some m2 \<and>
    (\<forall>w. reach (\<lambda>v. v = z) (deaf_step fifo) w \<longrightarrow> sy_umsg w = Some m2)"
proof -
  obtain z where z: "runs fifo y z" "sv_state (sy_server z) = FOLLOWER" "\<not> reader z" "sy_umsg z = Some m2"
    using late_table_waits [OF assms] by blast
  have "sy_umsg w = Some m2" if "reach (\<lambda>v. v = z) (deaf_step fifo) w" for w
    using waiting.reach_inv [of z m2 fifo w] that z by simp
  then show ?thesis using z by blast
qed

theorem late_peer_info_blocks_witness:
  "\<exists>m z. runs True (settled BECOME_FOLLOWER) z \<and> sv_state (sy_server z) = FOLLOWER \<and> sy_umsg z = Some m"
proof -
  obtain m where "peer_table (lit ''aaaa'') m" using sample_peer_table by blast
  moreover have "joining (settled BECOME_FOLLOWER) \<lparr>bc_UUID = lit ''aaaa'', bc_IP = [1]\<rparr>"
    by (simp add: joining_def settled_def sample_server_def)
  ultimately show ?thesis
    using late_peer_info_blocks [of "settled BECOME_FOLLOWER" "\<lparr>bc_UUID = lit ''aaaa'', bc_IP = [1]\<rparr>" m m True]
    by auto
qed

end
