(* ===== verification/Locks.thy ===== *)
theory Locks
  imports ServerDispatch
begin

text \<open>
  The two mutexes and the channel between the multicast layer and the server: \<open>rm.mu\<close>, which
  \<open>DeliverMessages\<close> holds while it sends on \<open>rmMsgChan\<close>, and \<open>s.mu\<close>, which the receiver of that
  channel takes for every message. Each goroutine is the list of its operations on them, as the
  code of \<^verbatim>\<open>server/multicast/multicast.go\<close>, \<^verbatim>\<open>server/multicast.go\<close> and \<^verbatim>\<open>server/server.go\<close> has them.
\<close>

section \<open>Goroutines as lists of operations\<close>

datatype mutex = RmMu | ServerMu

datatype lock_op = Acquire mutex | Release mutex | Put | Take

text \<open>\<open>DeliverMessages\<close> sends every message it delivers while it holds the mutex.\<close>

definition deliver_locks :: "ReliableMulticast \<Rightarrow> lock_op list" where
  "deliver_locks m =
     (case DeliverMessages m of
        None \<Rightarrow> []
      | Some (m', ms) \<Rightarrow> Acquire RmMu # replicate (length ms) Put @ [Release RmMu])"

text \<open>
  The dispatcher takes a message, reads the state under the lock, and takes the lock again for the
  types that change the server. That the clients' channel may be full, and the state machine's own
  mutex, are left out: here the clients keep up.
\<close>

definition dispatch_locks :: "gostring \<Rightarrow> MMessage \<Rightarrow> lock_op list" where
  "dispatch_locks self msg =
     Take # Acquire ServerMu # Release ServerMu #
       (if mc_UUID msg = self then []
        else
          (case Decode (mc_Message msg) of
             Inl e \<Rightarrow> []
           | Inr d \<Rightarrow>
               if m_Type d = DeadNode \<or> m_Type d = ElectionVictory \<or> m_Type d = PeerInfo
               then [Acquire ServerMu, Release ServerMu] else []))"

definition dispatcher_locks :: "gostring \<Rightarrow> MMessage list \<Rightarrow> lock_op list" where
  "dispatcher_locks self msgs = concat (map (dispatch_locks self) msgs)"

text \<open>\<open>handleDeadServer\<close> holds \<open>s.mu\<close> around \<open>RemoveDeadNode\<close> and \<open>SendMessage\<close>, which take \<open>rm.mu\<close>.\<close>

definition dead_locks :: "Server \<Rightarrow> gostring \<Rightarrow> lock_op list" where
  "dead_locks s uuid =
     Acquire ServerMu #
       (if fmlookup (sv_peers s) uuid = None then []
        else [Acquire RmMu, Release RmMu, Acquire RmMu, Release RmMu]) @ [Release ServerMu]"

text \<open>
  Other users: the delivery goroutine appends before it delivers, a chat line and an acknowledgement
  read the server's state and then use the multicast layer.
\<close>

definition enqueue_locks :: "lock_op list" where
  "enqueue_locks = [Acquire RmMu, Release RmMu]"

definition line_locks :: "lock_op list" where
  "line_locks = [Acquire ServerMu, Release ServerMu, Acquire RmMu, Release RmMu]"

section \<open>Interleaving\<close>

record lock_state =
  lk_routines :: "lock_op list list"
  lk_owner :: "mutex \<Rightarrow> nat option"
  lk_queue :: nat

definition queue_size :: nat where
  "queue_size = 5"

text \<open>What a goroutine may do next; \<open>None\<close> when it has to wait.\<close>

fun perform :: "lock_state \<Rightarrow> nat \<Rightarrow> lock_op \<Rightarrow> lock_state option" where
  "perform y i (Acquire l) = (if lk_owner y l = None then Some (y\<lparr>lk_owner := (lk_owner y)(l := Some i)\<rparr>) else None)"
| "perform y i (Release l) = Some (y\<lparr>lk_owner := (lk_owner y)(l := None)\<rparr>)"
| "perform y i Put = (if lk_queue y < queue_size then Some (y\<lparr>lk_queue := Suc (lk_queue y)\<rparr>) else None)"
| "perform y i Take = (if 0 < lk_queue y then Some (y\<lparr>lk_queue := lk_queue y - 1\<rparr>) else None)"

inductive lock_step :: "lock_state \<Rightarrow> lock_state \<Rightarrow> bool" where
  lock_perform: "i < length (lk_routines y) \<Longrightarrow> lk_routines y ! i = op # ops \<Longrightarrow> perform y i op = Some y' \<Longrightarrow>
    lock_step y (y'\<lparr>lk_routines := (lk_routines y)[i := ops]\<rparr>)"

definition running :: "lock_op list list \<Rightarrow> lock_state" where
  "running ps = \<lparr>lk_routines = ps, lk_owner = (\<lambda>l. None), lk_queue = 0\<rparr>"

definition stuck :: "lock_state \<Rightarrow> bool" where
  "stuck y \<longleftrightarrow> (\<nexists>y'. lock_step y y')"

lemma stuck_iff:
  "stuck y \<longleftrightarrow> (\<forall>i < length (lk_routines y). case lk_routines y ! i of [] \<Rightarrow> True | op # ops \<Rightarrow> perform y i op = None)"
proof
  assume s: "stuck y"
  show "\<forall>i < length (lk_routines y). case lk_routines y ! i of [] \<Rightarrow> True | op # ops \<Rightarrow> perform y i op = None"
  proof (intro allI impI)
    fix i assume i: "i < length (lk_routines y)"
    show "case lk_routines y ! i of [] \<Rightarrow> True | op # ops \<Rightarrow> perform y i op = None"
    proof (cases "lk_routines y ! i")
      case (Cons op ops)
      then show ?thesis
        using lock_perform [OF i Cons] s by (cases "perform y i op") (auto simp: stuck_def)
    qed simp
  qed
next
  assume "\<forall>i < length (lk_routines y). case lk_routines y ! i of [] \<Rightarrow> True | op # ops \<Rightarrow> perform y i op = None"
  then show "stuck y" by (fastforce simp: stuck_def lock_step.simps)
qed

text \<open>Every step uses up an operation, so every run ends.\<close>

definition todo :: "lock_state \<Rightarrow> nat" where
  "todo y = sum_list (map length (lk_routines y))"

lemma perform_keeps: "perform y i op = Some y' \<Longrightarrow> lk_routines y' = lk_routines y"
  by (cases op) (auto split: if_splits)

lemma sum_list_update_less:
  "i < length ps \<Longrightarrow> ps ! i = op # ops \<Longrightarrow> Suc (sum_list (map length (ps[i := ops]))) = sum_list (map length ps)"
  by (induction ps arbitrary: i) (auto split: nat.splits simp: nth_Cons)

lemma lock_step_todo: "lock_step y y' \<Longrightarrow> Suc (todo y') = todo y"
  by (induction rule: lock_step.induct) (simp add: todo_def sum_list_update_less)

lemma run_ends: "\<exists>z. reach (\<lambda>u. u = y) lock_step z \<and> stuck z"
proof (induction "todo y" arbitrary: y rule: less_induct)
  case less
  show ?case
  proof (cases "stuck y")
    case True
    then show ?thesis by (blast intro: reach_init)
  next
    case False
    then obtain y' where step: "lock_step y y'" by (auto simp: stuck_def)
    then have "todo y' < todo y" using lock_step_todo by (metis lessI)
    from less [OF this] obtain z where z: "reach (\<lambda>u. u = y') lock_step z" "stuck z" by blast
    from reach_from [OF z(1) reach_one [of lock_step, OF step]] z(2) show ?thesis by blast
  qed
qed

section \<open>A deadlock\<close>

lemma puts:
  assumes "i < length (lk_routines y)" "lk_routines y ! i = replicate n Put @ ops" "lk_queue y + n \<le> queue_size"
  shows "reach (\<lambda>u. u = y) lock_step (y\<lparr>lk_routines := (lk_routines y)[i := ops], lk_queue := lk_queue y + n\<rparr>)"
  using assms
proof (induction n arbitrary: y)
  case 0
  then have "(lk_routines y)[i := ops] = lk_routines y" by (simp add: list_update_same_conv)
  then show ?case by (simp add: reach_init)
next
  case (Suc n)
  let ?y = "y\<lparr>lk_queue := Suc (lk_queue y), lk_routines := (lk_routines y)[i := replicate n Put @ ops]\<rparr>"
  have "lock_step y ?y" using lock_perform [of i y Put "replicate n Put @ ops"] Suc.prems by simp
  then have 1: "reach (\<lambda>u. u = y) lock_step ?y" by (rule reach_one)
  have "reach (\<lambda>u. u = ?y) lock_step (?y\<lparr>lk_routines := (lk_routines ?y)[i := ops], lk_queue := lk_queue ?y + n\<rparr>)"
    by (rule Suc.IH) (use Suc.prems in simp_all)
  from reach_from [OF this 1] show ?case by simp
qed


lemma deadlock_run:
  assumes "7 \<le> n"
  shows "\<exists>y. reach (\<lambda>u. u = running [Take # Acquire ServerMu # ds, Acquire RmMu # replicate n Put @ vs,
        Acquire ServerMu # Acquire RmMu # hs]) lock_step y \<and> stuck y \<and>
      lk_routines y = [Acquire ServerMu # ds, replicate (n - 6) Put @ vs, Acquire RmMu # hs] \<and>
      lk_owner y ServerMu = Some 2 \<and> lk_owner y RmMu = Some 1"
proof -
  let ?d = "Take # Acquire ServerMu # ds" and ?h = "Acquire ServerMu # Acquire RmMu # hs"
  let ?v = "replicate (n - 5) Put @ vs"
  let ?y0 = "running [?d, Acquire RmMu # replicate n Put @ vs, ?h]"
  let ?y1 = "\<lparr>lk_routines = [?d, replicate 5 Put @ ?v, ?h], lk_owner = (\<lambda>l. None)(RmMu := Some 1), lk_queue = 0\<rparr>"
  let ?y2 = "\<lparr>lk_routines = [?d, ?v, ?h], lk_owner = (\<lambda>l. None)(RmMu := Some 1), lk_queue = 5\<rparr>"
  let ?y3 = "?y2\<lparr>lk_routines := [Acquire ServerMu # ds, ?v, ?h], lk_queue := 4\<rparr>"
  let ?y4 = "?y3\<lparr>lk_routines := [Acquire ServerMu # ds, replicate (n - 6) Put @ vs, ?h], lk_queue := 5\<rparr>"
  let ?y5 = "?y4\<lparr>lk_routines := [Acquire ServerMu # ds, replicate (n - 6) Put @ vs, Acquire RmMu # hs],
    lk_owner := (lk_owner ?y4)(ServerMu := Some 2)\<rparr>"
  have split: "replicate n Put @ vs = replicate 5 Put @ ?v"
  proof -
    obtain k where "n = 5 + k" using assms le_Suc_ex [of 5 n] by auto
    then show ?thesis by (simp only: replicate_add append_assoc add_diff_cancel_left')
  qed
  have "n - 5 = Suc (n - 6)" "n - 6 = Suc (n - 7)" using assms by simp_all
  then have v: "?v = Put # replicate (n - 6) Put @ vs" and v': "replicate (n - 6) Put @ vs = Put # replicate (n - 7) Put @ vs"
    by simp_all
  have "lock_step ?y0 ?y1"
    using lock_perform [of 1 ?y0 "Acquire RmMu" "replicate n Put @ vs"] split by (simp add: running_def)
  then have r1: "reach (\<lambda>u. u = ?y0) lock_step ?y1" by (rule reach_one)
  have "reach (\<lambda>u. u = ?y1) lock_step ?y2"
    using puts [of 1 ?y1 5 ?v] by (simp add: queue_size_def)
  from reach_from [OF this r1] have r2: "reach (\<lambda>u. u = ?y0) lock_step ?y2" .
  have "lock_step ?y2 ?y3" using lock_perform [of 0 ?y2 Take "Acquire ServerMu # ds"] by simp
  with r2 have r3: "reach (\<lambda>u. u = ?y0) lock_step ?y3" by (rule reach_step)
  have "lock_step ?y3 ?y4"
    using lock_perform [of 1 ?y3 Put "replicate (n - 6) Put @ vs"] v by (simp add: queue_size_def)
  with r3 have r4: "reach (\<lambda>u. u = ?y0) lock_step ?y4" by (rule reach_step)
  have "lock_step ?y4 ?y5"
    using lock_perform [of 2 ?y4 "Acquire ServerMu" "Acquire RmMu # hs"] by simp
  with r4 have r5: "reach (\<lambda>u. u = ?y0) lock_step ?y5" by (rule reach_step)
  have "stuck ?y5"
    unfolding stuck_iff using v' by (simp add: All_less_Suc numeral_3_eq_3 queue_size_def)
  then show ?thesis using r5 by (intro exI [of _ ?y5]) simp
qed

section \<open>No deadlock without the dead\<close>

text \<open>
  Programs that wait for nothing while they hold \<open>s.mu\<close>, and only for room in the channel while they
  hold \<open>rm.mu\<close>; \<open>safe_in l\<close> is what may follow when the mutex \<open>l\<close> is held.
\<close>

fun safe :: "lock_op list \<Rightarrow> bool" and safe_in :: "mutex \<Rightarrow> lock_op list \<Rightarrow> bool" where
  "safe [] = True"
| "safe (Acquire l # ops) = safe_in l ops"
| "safe (Take # ops) = safe ops"
| "safe (Put # ops) = False"
| "safe (Release l # ops) = False"
| "safe_in l [] = False"
| "safe_in l (Release k # ops) = (k = l \<and> safe ops)"
| "safe_in l (Put # ops) = (l = RmMu \<and> safe_in l ops)"
| "safe_in l (Take # ops) = False"
| "safe_in l (Acquire k # ops) = False"

lemma safe_append: "safe ps \<Longrightarrow> safe qs \<Longrightarrow> safe (ps @ qs)" "safe_in l ps \<Longrightarrow> safe qs \<Longrightarrow> safe_in l (ps @ qs)"
  by (induction ps and l ps rule: safe_safe_in.induct) auto

lemma safe_puts: "safe qs \<Longrightarrow> safe_in RmMu (replicate n Put @ Release RmMu # qs)"
  by (induction n) auto

lemma safe_programs:
  "safe (deliver_locks m)" "safe (dispatcher_locks self msgs)" "safe enqueue_locks" "safe line_locks"
proof -
  show "safe (deliver_locks m)"
    using safe_puts [of "[]"] by (auto simp: deliver_locks_def split: option.splits)
  have "safe (dispatch_locks self x)" for x
    by (auto simp: dispatch_locks_def split: sum.splits)
  then show "safe (dispatcher_locks self msgs)"
    by (induction msgs) (auto simp: dispatcher_locks_def intro: safe_append)
qed (simp_all add: enqueue_locks_def line_locks_def)


definition takes_on :: "lock_op list \<Rightarrow> bool" where
  "takes_on ops \<longleftrightarrow> set ops \<subseteq> {Take, Acquire ServerMu, Release ServerMu}"

text \<open>
  Each goroutine holds what its rest releases; the first one is the dispatcher, which takes as many
  messages as there are to come.
\<close>

definition holds_ok :: "lock_state \<Rightarrow> nat \<Rightarrow> bool" where
  "holds_ok y i \<longleftrightarrow>
     (safe (lk_routines y ! i) \<and> (\<forall>l. lk_owner y l \<noteq> Some i)) \<or>
     (\<exists>l. safe_in l (lk_routines y ! i) \<and> (\<forall>k. (lk_owner y k = Some i) = (k = l)))"

definition locks_ok :: "lock_state \<Rightarrow> bool" where
  "locks_ok y \<longleftrightarrow> (\<forall>i < length (lk_routines y). holds_ok y i) \<and>
     (\<forall>l i. lk_owner y l = Some i \<longrightarrow> i < length (lk_routines y))"

definition demand :: "lock_state \<Rightarrow> bool" where
  "demand y \<longleftrightarrow> lk_routines y \<noteq> [] \<and> takes_on (lk_routines y ! 0) \<and>
     (\<forall>i < length (lk_routines y). 0 < i \<longrightarrow> Take \<notin> set (lk_routines y ! i)) \<and>
     lk_queue y + sum_list (map (\<lambda>ops. count_list ops Put) (lk_routines y)) \<le> count_list (lk_routines y ! 0) Take"

lemma holds_self:
  assumes "i < length (lk_routines y)" "lk_routines y ! i = op # ops" "perform y i op = Some y'" "holds_ok y i"
  shows "holds_ok (y'\<lparr>lk_routines := (lk_routines y)[i := ops]\<rparr>) i"
proof (cases op)
  case (Acquire l)
  then have "safe_in l ops" "\<forall>k. lk_owner y k \<noteq> Some i" "lk_owner y' = (lk_owner y)(l := Some i)"
    using assms(2-4) by (auto simp: holds_ok_def split: if_splits)
  then show ?thesis using assms(1) unfolding holds_ok_def by (intro disjI2 exI [of _ l]) simp
next
  case (Release l)
  then have "safe ops" "\<forall>k. (lk_owner y k = Some i) = (k = l)" "lk_owner y' = (lk_owner y)(l := None)"
    using assms(2-4) by (auto simp: holds_ok_def)
  then show ?thesis using assms(1) unfolding holds_ok_def by (intro disjI1) simp
next
  case Put
  have "holds_ok y i" by (rule assms(4))
  then obtain l where l: "safe_in l ops" "\<forall>k. (lk_owner y k = Some i) = (k = l)"
    unfolding holds_ok_def assms(2) Put by auto
  have "lk_owner y' = lk_owner y" using assms(3) Put by (auto split: if_splits)
  then show ?thesis using assms(1) l unfolding holds_ok_def by (intro disjI2 exI [of _ l]) simp
next
  case Take
  then have "safe ops" "\<forall>k. lk_owner y k \<noteq> Some i" "lk_owner y' = lk_owner y"
    using assms(2-4) by (auto simp: holds_ok_def split: if_splits)
  then show ?thesis using assms(1) unfolding holds_ok_def by (intro disjI1) simp
qed

lemma owner_others:
  assumes "lk_routines y ! i = op # ops" "perform y i op = Some y'" "holds_ok y i" "j \<noteq> i"
  shows "(lk_owner y' k = Some j) = (lk_owner y k = Some j)"
proof (cases op)
  case (Release l)
  then have "lk_owner y l = Some i" using assms(1,3) by (auto simp: holds_ok_def)
  then show ?thesis using assms(2,4) Release by (auto split: if_splits)
qed (use assms(2,4) in \<open>auto split: if_splits\<close>)

lemma locks_ok_step: "lock_step y y' \<Longrightarrow> locks_ok y \<Longrightarrow> locks_ok y'"
proof (induction rule: lock_step.induct)
  case (lock_perform i y op ops y')
  have i: "holds_ok y i" using lock_perform by (simp add: locks_ok_def)
  have self: "holds_ok (y'\<lparr>lk_routines := (lk_routines y)[i := ops]\<rparr>) i"
    using holds_self [OF lock_perform.hyps] i .
  have "(lk_owner y' k = Some j) = (lk_owner y k = Some j)" if "j \<noteq> i" for j k
    using owner_others [OF lock_perform.hyps(2,3) i that] .
  then have "holds_ok (y'\<lparr>lk_routines := (lk_routines y)[i := ops]\<rparr>) j" if "j < length (lk_routines y)" for j
    using self lock_perform.prems that by (cases "j = i") (simp_all add: locks_ok_def holds_ok_def)
  moreover have "\<forall>l j. lk_owner y' l = Some j \<longrightarrow> j < length (lk_routines y)"
    using lock_perform by (cases op) (auto simp: locks_ok_def split: if_splits)
  ultimately show ?case by (simp add: locks_ok_def)
qed

lemma sum_update:
  "i < length ps \<Longrightarrow> sum_list (map f (ps[i := p])) + f (ps ! i) = sum_list (map f ps) + (f p :: nat)"
  by (induction ps arbitrary: i) (auto split: nat.splits simp: nth_Cons)

lemma demand_step: "lock_step y y' \<Longrightarrow> demand y \<Longrightarrow> demand y'"
proof (induction rule: lock_step.induct)
  case (lock_perform i y op ops y')
  let ?f = "\<lambda>ops. count_list ops Put"
  have sum: "sum_list (map ?f ((lk_routines y)[i := ops])) + ?f (op # ops) = sum_list (map ?f (lk_routines y)) + ?f ops"
    using sum_update [OF lock_perform.hyps(1), of ?f ops] lock_perform.hyps(2) by simp
  have "i = 0 \<Longrightarrow> op \<in> {Take, Acquire ServerMu, Release ServerMu} \<and> takes_on ops"
    using lock_perform by (auto simp: demand_def takes_on_def)
  moreover have "0 < i \<Longrightarrow> op \<noteq> Take \<and> Take \<notin> set ops"
    using lock_perform by (auto simp: demand_def)
  ultimately show ?case
    using lock_perform sum
    by (cases "i = 0"; cases op) (auto simp: demand_def nth_list_update split: if_splits)
qed

interpretation locking: invariant_system "\<lambda>y. y = y0 \<and> locks_ok y0 \<and> demand y0" lock_step "\<lambda>y. locks_ok y \<and> demand y" for y0
  by unfold_locales (auto intro: locks_ok_step demand_step)


text \<open>When no step is possible, nobody holds a mutex and only the dispatcher is left, waiting for a message.\<close>

lemma blocked:
  assumes "stuck y" "i < length (lk_routines y)" "lk_routines y ! i = op # ops" shows "perform y i op = None"
proof -
  have "case lk_routines y ! i of [] \<Rightarrow> True | op # ops \<Rightarrow> perform y i op = None"
    using assms(1,2) stuck_iff by blast
  then show ?thesis using assms(3) by simp
qed

lemma stuck_nobody_holds:
  assumes "stuck y" "locks_ok y" "demand y" shows "lk_owner y l = None"
proof -
  have held: "\<exists>op ops. lk_routines y ! i = op # ops \<and> op = Put \<and> k = RmMu \<and> i < length (lk_routines y)"
    if k: "lk_owner y k = Some i" for k i
  proof -
    have i: "i < length (lk_routines y)" "holds_ok y i" using assms(2) k by (auto simp: locks_ok_def)
    then have s: "safe_in k (lk_routines y ! i)" using k by (auto simp: holds_ok_def)
    then obtain op ops where ops: "lk_routines y ! i = op # ops" by (cases "lk_routines y ! i") auto
    then show ?thesis using s blocked [OF assms(1) i(1) ops] i(1) by (cases op) auto
  qed
  have server: "lk_owner y ServerMu = None"
    using held [of ServerMu] by (cases "lk_owner y ServerMu") auto
  have "lk_owner y RmMu = None"
  proof (rule ccontr)
    assume "lk_owner y RmMu \<noteq> None"
    then obtain i ops where i: "lk_owner y RmMu = Some i" "lk_routines y ! i = Put # ops" "i < length (lk_routines y)"
      using held [of RmMu] by auto
    have full: "0 < lk_queue y" using blocked [OF assms(1) i(3,2)] by (auto simp: queue_size_def split: if_splits)
    have d: "takes_on (lk_routines y ! 0)" "0 < count_list (lk_routines y ! 0) Take"
      using assms(3) full by (auto simp: demand_def)
    have "i \<noteq> 0"
    proof
      assume "i = 0"
      then have "Put \<in> set (lk_routines y ! 0)" using i(2) by simp
      then show False using d(1) by (auto simp: takes_on_def)
    qed
    obtain op ops' where z: "lk_routines y ! 0 = op # ops'" using d(2) by (cases "lk_routines y ! 0") auto
    have len: "0 < length (lk_routines y)" using i(3) by linarith
    have "lk_owner y l \<noteq> Some 0" for l
      using server i(1) \<open>i \<noteq> 0\<close> by (cases l) simp_all
    moreover have "holds_ok y 0" using assms(2) len by (simp add: locks_ok_def)
    ultimately have "safe (lk_routines y ! 0)" by (auto simp: holds_ok_def)
    then show False
      using blocked [OF assms(1) len z] z d(1) full server by (cases op) (auto simp: takes_on_def)
  qed
  then show ?thesis using server by (cases l) simp_all
qed

lemma stuck_is_done:
  assumes "stuck y" "locks_ok y" "demand y" "0 < i" "i < length (lk_routines y)"
  shows "lk_routines y ! i = []"
proof (cases "lk_routines y ! i")
  case (Cons op ops)
  have "safe (lk_routines y ! i)"
    using assms(2,5) stuck_nobody_holds [OF assms(1-3)] by (auto simp: locks_ok_def holds_ok_def)
  then have "op = Take"
    using blocked [OF assms(1,5) Cons] Cons stuck_nobody_holds [OF assms(1-3)] by (cases op) auto
  then show ?thesis using assms(3-5) Cons by (auto simp: demand_def)
qed simp


lemma count_takes: "count_list (dispatcher_locks self msgs) Take = length msgs"
proof -
  have "count_list (dispatch_locks self x) Take = 1" for x
    by (auto simp: dispatch_locks_def split: sum.splits)
  then show ?thesis by (induction msgs) (simp_all add: dispatcher_locks_def)
qed

lemma dispatcher_takes_on: "takes_on (dispatcher_locks self msgs)"
proof -
  have "takes_on (dispatch_locks self x)" for x
    by (auto simp: dispatch_locks_def takes_on_def split: sum.splits)
  then show ?thesis by (induction msgs) (auto simp: dispatcher_locks_def takes_on_def)
qed

lemma takes_on_puts: "takes_on ops \<Longrightarrow> count_list ops Put = 0"
  by (auto simp: takes_on_def count_list_0_iff)

definition user :: "lock_op list \<Rightarrow> bool" where
  "user p \<longleftrightarrow> (\<exists>m. p = deliver_locks m) \<or> p = enqueue_locks \<or> p = line_locks"

lemma user_facts: "user p \<Longrightarrow> safe p \<and> Take \<notin> set p"
proof -
  have "Take \<notin> set (deliver_locks m)" for m
    by (auto simp: deliver_locks_def split: option.splits)
  then show "user p \<Longrightarrow> safe p \<and> Take \<notin> set p"
    unfolding user_def using safe_programs by (auto simp: enqueue_locks_def line_locks_def)
qed

lemma users_start:
  assumes "\<forall>p \<in> set ps. user p" "sum_list (map (\<lambda>ops. count_list ops Put) ps) \<le> length msgs"
  shows "locks_ok (running (dispatcher_locks self msgs # ps)) \<and> demand (running (dispatcher_locks self msgs # ps))"
proof
  have "safe p" if "p \<in> set (dispatcher_locks self msgs # ps)" for p
    using that assms(1) user_facts safe_programs(2) by auto
  then show "locks_ok (running (dispatcher_locks self msgs # ps))"
    by (auto simp: locks_ok_def holds_ok_def running_def simp del: set_simps dest: nth_mem)
  have "Take \<notin> set ((dispatcher_locks self msgs # ps) ! i)" if "i < Suc (length ps)" "0 < i" for i
    using that assms(1) user_facts nth_mem [of "i - 1" ps] by (auto simp: nth_Cons split: nat.splits)
  then show "demand (running (dispatcher_locks self msgs # ps))"
    using assms(2) dispatcher_takes_on takes_on_puts [OF dispatcher_takes_on] count_takes
    by (simp add: demand_def running_def)
qed

section \<open>Seven messages\<close>

definition seven :: "MMessage list" where
  "seven = map (\<lambda>k. stamped ''bbbb'' [(''aaaa'', 0), (''bbbb'', k), (''cccc'', 0)]) [1, 2, 3, 4, 5, 6, 7]"

lemma seven_delivered: "map_option (\<lambda>(m, ms). length ms) (DeliverMessages (sample_node seven)) = Some 7"
  by code_simp

section \<open>Properties\<close>

text \<open>C11: declaring a peer dead can lock the server up. When seven messages become deliverable at once, the delivery
  goroutine, which holds \<open>rm.mu\<close>, fills the channel; the dispatcher has taken one message and waits for
  \<open>s.mu\<close>; and \<open>handleDeadServer\<close> holds \<open>s.mu\<close> and waits for \<open>rm.mu\<close>. No goroutine can go on, and
  each of the three still has something to do.\<close>

theorem dead_server_deadlock:
  assumes "DeliverMessages m = Some (m', ms)" "7 \<le> length ms" "msgs \<noteq> []" "fmlookup (sv_peers s) uuid = Some ip"
  shows "\<exists>y. reach (\<lambda>u. u = running [dispatcher_locks self msgs, deliver_locks m, dead_locks s uuid]) lock_step y \<and>
    stuck y \<and> list_all (\<lambda>ops. ops \<noteq> []) (lk_routines y) \<and> lk_owner y ServerMu = Some 2 \<and> lk_owner y RmMu = Some 1"
proof -
  obtain x xs where msgs: "msgs = x # xs" using assms(3) by (cases msgs) auto
  obtain ds where d: "dispatcher_locks self msgs = Take # Acquire ServerMu # ds"
    by (simp add: msgs dispatcher_locks_def dispatch_locks_def)
  have v: "deliver_locks m = Acquire RmMu # replicate (length ms) Put @ [Release RmMu]"
    using assms(1) by (simp add: deliver_locks_def)
  have h: "dead_locks s uuid = Acquire ServerMu # Acquire RmMu # [Release RmMu, Acquire RmMu, Release RmMu, Release ServerMu]"
    using assms(4) by (simp add: dead_locks_def)
  show ?thesis
    unfolding d v h using deadlock_run [OF assms(2), of ds "[Release RmMu]"] by fastforce
qed

theorem dead_server_deadlock_witness:
  "\<exists>y. reach (\<lambda>u. u = running [dispatcher_locks [] [zero_mmessage], deliver_locks (sample_node seven),
      dead_locks (sample_server (lit ''aaaa'') LEADER) (lit ''bbbb'')]) lock_step y \<and> stuck y \<and>
    list_all (\<lambda>ops. ops \<noteq> []) (lk_routines y)"
proof -
  obtain m' ms where "DeliverMessages (sample_node seven) = Some (m', ms)" "length ms = 7"
    using seven_delivered by (cases "DeliverMessages (sample_node seven)") auto
  moreover have "fmlookup (sv_peers (sample_server (lit ''aaaa'') LEADER)) (lit ''bbbb'') = Some [2]"
    by (simp add: sample_server_def lit_def)
  ultimately show ?thesis
    using dead_server_deadlock [of "sample_node seven" m' ms "[zero_mmessage]" "sample_server (lit ''aaaa'') LEADER"]
    by fastforce
qed


text \<open>C10: without that there is no deadlock. Take any number of goroutines that append, deliver, send chat lines
  or count acknowledgements, and the dispatcher, which takes on as many messages as are delivered. Every step
  brings the end nearer, and when no step is possible, all of them are done, except that the
  dispatcher may be waiting for another message.\<close>

theorem no_deadlock_without_dead:
  assumes "\<forall>p \<in> set ps. user p" "sum_list (map (\<lambda>ops. count_list ops Put) ps) \<le> length msgs"
    and "reach (\<lambda>u. u = running (dispatcher_locks self msgs # ps)) lock_step y"
  shows "(stuck y \<longrightarrow> list_all (\<lambda>ops. ops = []) (tl (lk_routines y))) \<and>
    (lock_step y y' \<longrightarrow> Suc (todo y') = todo y)"
proof -
  have "reach (\<lambda>u. u = running (dispatcher_locks self msgs # ps) \<and> locks_ok (running (dispatcher_locks self msgs # ps)) \<and>
      demand (running (dispatcher_locks self msgs # ps))) lock_step y"
    using assms(3) users_start [OF assms(1,2), of self] by simp
  then have ok: "locks_ok y" "demand y" using locking.reach_inv by blast+
  have "list_all (\<lambda>ops. ops = []) (tl (lk_routines y))" if "stuck y"
    using stuck_is_done [OF that ok] by (auto simp: list_all_length nth_tl)
  then show ?thesis using lock_step_todo by blast
qed

theorem no_deadlock_without_dead_witness:
  "\<exists>y. reach (\<lambda>u. u = running [dispatcher_locks [] [zero_mmessage], line_locks, enqueue_locks]) lock_step y \<and>
     stuck y \<and> list_all (\<lambda>ops. ops = []) (tl (lk_routines y))"
proof -
  obtain y where y: "reach (\<lambda>u. u = running [dispatcher_locks [] [zero_mmessage], line_locks, enqueue_locks]) lock_step y" "stuck y"
    using run_ends by blast
  have "\<forall>p \<in> set [line_locks, enqueue_locks]. user p" by (simp add: user_def)
  from no_deadlock_without_dead [OF this _ y(1), of y] y show ?thesis
    by (auto simp: line_locks_def enqueue_locks_def)
qed

end
