(* ===== verification/ClientProgram.thy ===== *)
theory ClientProgram
  imports Chat
begin

text \<open>
  The client program, \<^verbatim>\<open>client/client.go\<close>, as its goroutines: the one that reads the terminal and writes
  to the current connection, and those that search for a server, connect and listen. \<open>None\<close> is a
  panic, which ends the program.
\<close>

section \<open>State\<close>

text \<open>
  A connection is a number and the address that was dialled. A network goroutine is at the start of
  \<open>run\<close>, waits for a broadcast, is about to connect to an address, is about to listen, or listens
  on a connection. \<open>c.conn\<close> and \<open>c.term\<close> are nil at first.
\<close>

type_synonym connection = "nat \<times> gostring"

datatype routine = Run | Searching | Connecting gostring | Connected | Listening connection | Gone

record Client =
  cl_username :: gostring
  cl_term :: bool
  cl_conn :: "connection option"
  cl_routines :: "routine list"
  cl_dialled :: nat

definition new_client :: "gostring \<Rightarrow> Client" where
  "new_client username = \<lparr>cl_username = username, cl_term = False, cl_conn = None, cl_routines = [Run], cl_dialled = 0\<rparr>"

section \<open>Operations\<close>

text \<open>
  \<open>listenForBroadcasts\<close> binds the broadcast port and ignores the error: when another routine of this
  client or another process (\<open>\<not> free\<close>) has the port, the nil connection yields no address, which the
  next line dereferences. It panics without a terminal as well. A datagram of any content will do.
\<close>

definition listenForBroadcasts :: "Client \<Rightarrow> bool \<Rightarrow> routine option" where
  "listenForBroadcasts c free =
     (if \<not> cl_term c \<or> \<not> free \<or> Searching \<in> set (cl_routines c) then None else Some Searching)"

text \<open>\<open>connectToServer\<close>: the connection changes only when the dial succeeds; the caller ignores the error.\<close>

definition connectToServer :: "Client \<Rightarrow> gostring \<Rightarrow> bool \<Rightarrow> Client" where
  "connectToServer c ip ok =
     (if ok then c\<lparr>cl_conn := Some (cl_dialled c, ip), cl_dialled := Suc (cl_dialled c)\<rparr> else c)"

text \<open>What happens to a network goroutine: the result of a system call, a line, or the end of the stream.\<close>

datatype net_event = Bound bool | Heard gostring | Dialled bool | ScannerMade | GotLine gostring | StreamEnd

definition set_routine :: "Client \<Rightarrow> nat \<Rightarrow> routine \<Rightarrow> Client" where
  "set_routine c i r = c\<lparr>cl_routines := (cl_routines c)[i := r]\<rparr>"

text \<open>
  The goroutine \<open>i\<close> in \<open>run\<close> and \<open>connectAndListen\<close>. A scanner on a nil connection panics; a line that
  redirects leads to the next address, the end of the stream back to the search.
\<close>

fun routine_step :: "Client \<Rightarrow> nat \<Rightarrow> routine \<Rightarrow> net_event \<Rightarrow> Client option" where
  "routine_step c i Run (Bound free) = map_option (set_routine c i) (listenForBroadcasts c free)"
| "routine_step c i Searching (Heard ip) = Some (set_routine c i (Connecting ip))"
| "routine_step c i (Connecting ip) (Dialled ok) = Some (set_routine (connectToServer c ip ok) i Connected)"
| "routine_step c i Connected ScannerMade =
     (case cl_conn c of None \<Rightarrow> None | Some conn \<Rightarrow> Some (set_routine c i (Listening conn)))"
| "routine_step c i (Listening conn) (GotLine text) =
     (case client_line text of Redirected ip \<Rightarrow> Some (set_routine c i (Connecting ip)) | _ \<Rightarrow> Some c)"
| "routine_step c i (Listening conn) StreamEnd = Some (set_routine c i Run)"
| "routine_step c i r e = Some c"

text \<open>
  A line of the terminal in \<open>chat\<close>: an empty one is skipped; writing to a nil connection panics; when
  the write fails, another \<open>run\<close> starts.
\<close>

definition type_line :: "Client \<Rightarrow> gostring \<Rightarrow> bool \<Rightarrow> (Client \<times> (connection \<times> bytes) option) option" where
  "type_line c line ok =
     (if line = [] then Some (c, None)
      else
        (case cl_conn c of
           None \<Rightarrow> None
         | Some conn \<Rightarrow>
             if ok then Some (c, Some (conn, sendMessageToServer (cl_username c) line))
             else Some (c\<lparr>cl_routines := cl_routines c @ [Run]\<rparr>, None)))"

text \<open>The program: the terminal is set up, a network goroutine goes on, or a line is typed.\<close>

datatype client_event = TermReady | Net nat net_event | Typed gostring bool

fun client_step :: "Client \<Rightarrow> client_event \<Rightarrow> (Client \<times> (connection \<times> bytes) option) option" where
  "client_step c TermReady = Some (c\<lparr>cl_term := True\<rparr>, None)"
| "client_step c (Net i e) =
     (if i < length (cl_routines c)
      then map_option (\<lambda>c'. (c', None)) (routine_step c i (cl_routines c ! i) e) else Some (c, None))"
| "client_step c (Typed line ok) = (if cl_term c then type_line c line ok else Some (c, None))"

text \<open>A whole run, with everything it wrote.\<close>

fun client_run :: "Client \<Rightarrow> client_event list \<Rightarrow> (Client \<times> (connection \<times> bytes) list) option" where
  "client_run c [] = Some (c, [])"
| "client_run c (e # es) =
     (case client_step c e of
        None \<Rightarrow> None
      | Some (c', w) \<Rightarrow>
          (case client_run c' es of
             None \<Rightarrow> None
           | Some (c'', ws) \<Rightarrow> Some (c'', (case w of None \<Rightarrow> ws | Some x \<Rightarrow> x # ws))))"

section \<open>One network goroutine\<close>

text \<open>While no write fails there is one network goroutine, and it listens on the connection that is written to.\<close>

definition write_succeeds :: "client_event \<Rightarrow> bool" where
  "write_succeeds e = (case e of Typed line ok \<Rightarrow> ok | _ \<Rightarrow> True)"

definition client_inv :: "Client \<Rightarrow> bool" where
  "client_inv c \<longleftrightarrow>
     (\<exists>r. cl_routines c = [r] \<and> (\<forall>conn. r = Listening conn \<longrightarrow> cl_conn c = Some conn))"

lemma routine_step_inv:
  assumes "client_inv c" "cl_routines c = [r]" "routine_step c 0 r e = Some c'" shows "client_inv c'"
  using assms
  by (cases r; cases e)
    (auto simp: client_inv_def set_routine_def listenForBroadcasts_def connectToServer_def
      split: option.splits if_splits shown.splits)

lemma client_step_inv:
  "client_inv c \<Longrightarrow> write_succeeds e \<Longrightarrow> client_step c e = Some (c', w) \<Longrightarrow> client_inv c'"
proof (cases e)
  case (Net i f)
  assume c: "client_inv c" "client_step c e = Some (c', w)"
  then obtain r where r: "cl_routines c = [r]" by (auto simp: client_inv_def)
  show ?thesis using routine_step_inv [OF c(1) r] c Net r by (auto split: if_splits)
qed (auto simp: client_inv_def type_line_def write_succeeds_def split: if_splits option.splits)

lemma client_run_inv:
  "client_run c es = Some (c', ws) \<Longrightarrow> client_inv c \<Longrightarrow> list_all write_succeeds es \<Longrightarrow> client_inv c'"
proof (induction es arbitrary: c ws)
  case (Cons e es)
  obtain c1 w ws1 where 1: "client_step c e = Some (c1, w)" "client_run c1 es = Some (c', ws1)"
    using Cons.prems(1) by (cases "client_step c e") (auto split: option.splits prod.splits)
  have "client_inv c1" using client_step_inv [OF Cons.prems(2) _ 1(1)] Cons.prems(3) by simp
  then show ?case using Cons.IH [OF 1(2)] Cons.prems(3) by simp
qed simp

text \<open>What such a client has to do to crash: look for a server, or write, or listen too early.\<close>

definition too_early :: "Client \<Rightarrow> client_event \<Rightarrow> bool" where
  "too_early c e \<longleftrightarrow>
     (case e of
        TermReady \<Rightarrow> False
      | Net i f \<Rightarrow> i = 0 \<and>
          (cl_routines c = [Run] \<and> (f = Bound False \<or> f = Bound True \<and> \<not> cl_term c) \<or>
           cl_routines c = [Connected] \<and> f = ScannerMade \<and> cl_conn c = None)
      | Typed line ok \<Rightarrow> cl_term c \<and> line \<noteq> [] \<and> cl_conn c = None)"

lemma routine_crash:
  "routine_step c 0 r e = None \<longleftrightarrow> r = Run \<and> (\<exists>free. e = Bound free \<and> listenForBroadcasts c free = None) \<or>
     r = Connected \<and> e = ScannerMade \<and> cl_conn c = None"
  by (cases r; cases e) (auto split: option.splits shown.splits)

lemma client_step_None: "client_inv c \<Longrightarrow> client_step c e = None \<longleftrightarrow> too_early c e"
  by (cases e) (auto simp: too_early_def client_inv_def type_line_def routine_crash listenForBroadcasts_def
      split: option.splits if_splits)


text \<open>A redirected client goes on at the new address, and writes there.\<close>

lemma redirection_followed:
  assumes "cl_term c" "cl_routines c = [Listening conn]" "client_line text = Redirected ip" "line \<noteq> []"
  shows "\<exists>c'. client_run c [Net 0 (GotLine text), Net 0 (Dialled True), Net 0 ScannerMade, Typed line True] =
      Some (c', [((cl_dialled c, ip), sendMessageToServer (cl_username c) line)]) \<and>
    cl_routines c' = [Listening (cl_dialled c, ip)]"
  using assms by (simp add: set_routine_def connectToServer_def type_line_def)

section \<open>A client that connects\<close>

definition connected_run :: "client_event list" where
  "connected_run = [TermReady, Net 0 (Bound True), Net 0 (Heard [49]), Net 0 (Dialled True), Net 0 ScannerMade, Typed [104, 105] True]"

lemma connected_run_result:
  "client_run (new_client [97]) connected_run =
     Some (\<lparr>cl_username = [97], cl_term = True, cl_conn = Some (0, [49]), cl_routines = [Listening (0, [49])], cl_dialled = 1\<rparr>,
       [((0, [49]), [97, 58, 104, 105, 10])])"
  by (simp add: connected_run_def new_client_def set_routine_def listenForBroadcasts_def connectToServer_def
      type_line_def sendMessageToServer_def)

section \<open>Properties\<close>

text \<open>C19: a client whose writes succeed has one network goroutine, and when that goroutine listens, it listens
  on the connection that the terminal writes to, through any number of searches, redirections and lost
  connections. Such a client panics exactly when it does something too early: it searches without
  a terminal or when the broadcast port is taken, it listens although the first dial has failed, or a
  line is typed before there is a connection.\<close>

theorem client_listens_where_it_writes:
  assumes "client_run (new_client username) es = Some (c, ws)" "list_all write_succeeds es"
  shows "(\<exists>r. cl_routines c = [r] \<and> (\<forall>conn. r = Listening conn \<longrightarrow> cl_conn c = Some conn)) \<and>
    (client_step c e = None) = too_early c e"
proof -
  have "client_inv (new_client username)" by (simp add: client_inv_def new_client_def)
  from client_run_inv [OF assms(1) this assms(2)] show ?thesis
    using client_step_None by (simp add: client_inv_def)
qed

theorem client_listens_where_it_writes_witness:
  "\<exists>c ws. client_run (new_client [97]) connected_run = Some (c, ws) \<and> cl_routines c = [Listening (0, [49])] \<and>
     client_step c (Typed [104] True) \<noteq> None"
proof -
  have "list_all write_succeeds connected_run" by (simp add: connected_run_def write_succeeds_def)
  from client_listens_where_it_writes [OF connected_run_result this, of "Typed [104] True"] show ?thesis
    using connected_run_result by (simp add: too_early_def)
qed

text \<open>C32: a lost connection can end the client. When a write fails, the terminal starts another search, and the
  goroutine that listened starts one as well when it sees the end of the stream; the second of the two
  finds the broadcast port taken by the first and dereferences a nil address.\<close>

theorem failed_write_crashes_client:
  assumes "cl_term c" "cl_routines c = [Listening conn]" "cl_conn c = Some conn" "line \<noteq> []"
  shows "client_run c [Typed line False, Net 0 StreamEnd, Net 0 (Bound True)] =
      Some (c\<lparr>cl_routines := [Searching, Run]\<rparr>, []) \<and>
    client_run c [Typed line False, Net 0 StreamEnd, Net 0 (Bound True), Net 1 (Bound True)] = None"
  using assms by (simp add: type_line_def set_routine_def listenForBroadcasts_def)

theorem failed_write_crashes_client_witness:
  "client_run \<lparr>cl_username = [97], cl_term = True, cl_conn = Some (0, [49]), cl_routines = [Listening (0, [49])], cl_dialled = 1\<rparr>
     [Typed [104] False, Net 0 StreamEnd, Net 0 (Bound True), Net 1 (Bound True)] = None"
  using failed_write_crashes_client [of "\<lparr>cl_username = [97], cl_term = True, cl_conn = Some (0, [49]),
      cl_routines = [Listening (0, [49])], cl_dialled = 1\<rparr>" "(0, [49])" "[104]"] by simp

end
