(* ===== verification/FailureDetector.thy ===== *)
theory FailureDetector
  imports ServerStates
begin

text \<open>
  The failure detectors: the heartbeats of a follower and the listener for them
  (\<^verbatim>\<open>server/heartbeat.go\<close>), and the two monitors of \<^verbatim>\<open>server/state_listener.go\<close> as loops over the events
  that their \<open>select\<close> takes, in the order it takes them. Times are in milliseconds. The tick of the
  leader's monitor is \<open>monitor_tick\<close>, the one of the follower's \<open>follower_tick\<close>.
\<close>

section \<open>Heartbeats\<close>

text \<open>
  \<open>StartHearbeat\<close>: one heartbeat at once and one per timer event, until the quit channel is closed
  or a write fails. The flag of an event says whether the write succeeded; the result lists what
  was written.
\<close>

datatype timer_event = Fired bool | Quit

fun heartbeat_loop :: "bytes \<Rightarrow> timer_event list \<Rightarrow> bytes list" where
  "heartbeat_loop uuid [] = []"
| "heartbeat_loop uuid (Quit # es) = []"
| "heartbeat_loop uuid (Fired ok # es) = (if ok then uuid # heartbeat_loop uuid es else [])"

definition StartHearbeat :: "gostring \<Rightarrow> bool \<Rightarrow> timer_event list \<Rightarrow> bytes list" where
  "StartHearbeat serverUUID first_ok es = (if first_ok then serverUUID # heartbeat_loop serverUUID es else [])"

text \<open>
  \<open>StartHearbeatListener\<close>: the quit channel is looked at before every read, which fails (\<open>None\<close>) or
  brings a datagram. The result lists the identifiers put on the channel.
\<close>

fun StartHearbeatListener :: "(gostring \<Rightarrow> bool) \<Rightarrow> bytes \<Rightarrow> (bool \<times> bytes option) list \<Rightarrow> gostring list" where
  "StartHearbeatListener parses buf [] = []"
| "StartHearbeatListener parses buf ((quit, read) # es) =
     (if quit then []
      else
        (case read of
           None \<Rightarrow> []
         | Some datagram \<Rightarrow>
             (case heartbeat_datagram parses buf datagram of
                (buf, None) \<Rightarrow> StartHearbeatListener parses buf es
              | (buf, Some uuidStr) \<Rightarrow> uuidStr # StartHearbeatListener parses buf es)))"

section \<open>The leader's monitor\<close>

text \<open>
  The loop of the first goroutine of \<open>LeaderStateStart\<close>: a heartbeat from the channel, a tick with the
  peers in the order of the walk, or the closed quit channel. The result is when each peer was last
  heard of, and who was declared dead at what time.
\<close>

datatype monitor_event = Beat nat gostring | Tick nat "gostring list" | MonitorQuit

fun monitor_run ::
  "gostring \<Rightarrow> (gostring, nat) fmap \<Rightarrow> monitor_event list \<Rightarrow> (gostring, nat) fmap \<times> (nat \<times> gostring) list" where
  "monitor_run self heard [] = (heard, [])"
| "monitor_run self heard (Beat now uuid # es) = monitor_run self (monitor_heartbeat heard now uuid) es"
| "monitor_run self heard (Tick now ks # es) =
     (case monitor_tick self now ks heard of
        (heard', dead) \<Rightarrow>
          (case monitor_run self heard' es of
             (heard'', deaths) \<Rightarrow> (heard'', map (\<lambda>uuid. (now, uuid)) dead @ deaths)))"
| "monitor_run self heard (MonitorQuit # es) = (heard, [])"

text \<open>The followers' side of the bargain: at no tick was the last sign of life of \<open>u\<close> more than a second ago.\<close>

fun punctual :: "gostring \<Rightarrow> nat \<Rightarrow> monitor_event list \<Rightarrow> bool" where
  "punctual u last_time [] = True"
| "punctual u last_time (Beat now v # es) = punctual u (if v = u then now else last_time) es"
| "punctual u last_time (Tick now ks # es) = (now - last_time \<le> 1000 \<and> punctual u last_time es)"
| "punctual u last_time (MonitorQuit # es) = punctual u last_time es"

definition event_time :: "monitor_event \<Rightarrow> nat" where
  "event_time e = (case e of Beat t u \<Rightarrow> t | Tick t ks \<Rightarrow> t | MonitorQuit \<Rightarrow> 0)"

text \<open>Events without a sign of life of \<open>u\<close>, up to the time \<open>t\<close>, with all members at every tick.\<close>

definition silent :: "gostring \<Rightarrow> gostring set \<Rightarrow> nat \<Rightarrow> monitor_event list \<Rightarrow> bool" where
  "silent u members t es \<longleftrightarrow>
     list_all (\<lambda>e. event_time e \<le> t \<and>
       (case e of Beat _ v \<Rightarrow> v \<noteq> u | Tick _ ks \<Rightarrow> set ks = members | MonitorQuit \<Rightarrow> False)) es"

definition ticks :: "monitor_event list \<Rightarrow> nat" where
  "ticks es = length (filter (\<lambda>e. case e of Tick t ks \<Rightarrow> True | _ \<Rightarrow> False) es)"

subsection \<open>One tick\<close>

lemma tick_keeps:
  "fmlookup heard u = Some t \<Longrightarrow> monitor_tick self now ks heard = (heard', dead) \<Longrightarrow> fmlookup heard' u = Some t"
  by (auto simp: monitor_tick_eq Let_def split: list.splits if_splits dest!: dropWhile_eq_Cons_conv [THEN iffD1])

lemma tick_dead:
  "monitor_tick self now ks heard = (heard', dead) \<Longrightarrow> u \<in> set dead \<Longrightarrow>
     \<exists>t. fmlookup heard u = Some t \<and> now - t > 1000 \<and> u \<noteq> self"
  by (auto simp: monitor_tick_eq Let_def map_get_def dest!: set_takeWhileD split: option.splits)


text \<open>A tick that does not know everybody learns of one more peer; one that does sees all of them.\<close>

definition unknown :: "gostring \<Rightarrow> gostring set \<Rightarrow> (gostring, nat) fmap \<Rightarrow> gostring set" where
  "unknown self members heard = {v \<in> members. v \<noteq> self \<and> fmlookup heard v = None}"

lemma tick_learns:
  assumes "monitor_tick self now ks heard = (heard', dead)"
  shows "if unknown self (set ks) heard = {}
    then heard' = heard \<and> set dead = {v \<in> set ks. v \<noteq> self \<and> now - map_get 0 heard v > 1000}
    else \<exists>v \<in> unknown self (set ks) heard. heard' = fmupd v now heard"
proof -
  let ?seen = "\<lambda>v. v = self \<or> fmlookup heard v \<noteq> None"
  have tick: "heard' = (case dropWhile ?seen ks of [] \<Rightarrow> heard | v # vs \<Rightarrow> fmupd v now heard)"
    "dead = filter (\<lambda>v. v \<noteq> self \<and> now - map_get 0 heard v > 1000) (takeWhile ?seen ks)"
    using assms by (auto simp: monitor_tick_eq Let_def)
  show ?thesis
  proof (cases "unknown self (set ks) heard = {}")
    case True
    then have "\<forall>v \<in> set ks. ?seen v" by (auto simp: unknown_def)
    then have "dropWhile ?seen ks = []" "takeWhile ?seen ks = ks"
      by (simp_all add: dropWhile_eq_Nil_conv takeWhile_eq_all_conv)
    then have "heard' = heard" "dead = filter (\<lambda>v. v \<noteq> self \<and> now - map_get 0 heard v > 1000) ks"
      by (simp_all only: tick list.case)
    then show ?thesis using True by auto
  next
    case False
    then have "dropWhile ?seen ks \<noteq> []" by (auto simp: unknown_def dropWhile_eq_Nil_conv)
    then obtain v vs where v: "dropWhile ?seen ks = v # vs" by (cases "dropWhile ?seen ks") auto
    then have "v \<in> set ks" "\<not> ?seen v"
      using set_dropWhileD [of v ?seen ks] dropWhile_eq_Cons_conv [of ?seen ks v vs] by auto
    then have "v \<in> unknown self (set ks) heard" by (simp add: unknown_def)
    then show ?thesis using False tick v by auto
  qed
qed

subsection \<open>A whole run\<close>

lemma monitor_run_append:
  "MonitorQuit \<notin> set es \<Longrightarrow> monitor_run self heard (es @ fs) =
     (case monitor_run self heard es of (h1, d1) \<Rightarrow>
        (case monitor_run self h1 fs of (h2, d2) \<Rightarrow> (h2, d1 @ d2)))"
  by (induction self heard es rule: monitor_run.induct) (auto split: prod.splits)

lemma punctual_lives:
  "punctual u t es \<Longrightarrow> fmlookup heard u = Some t \<Longrightarrow> (now, u) \<notin> set (snd (monitor_run self heard es))"
proof (induction self heard es arbitrary: t rule: monitor_run.induct)
  case (2 self heard time v es)
  then show ?case by (auto simp: monitor_heartbeat_def split: if_splits)
next
  case (3 self heard time ks es)
  obtain heard' dead where tick: "monitor_tick self time ks heard = (heard', dead)"
    by (cases "monitor_tick self time ks heard")
  have "u \<notin> set dead" using tick_dead [OF tick, of u] "3.prems" by auto
  moreover have "(now, u) \<notin> set (snd (monitor_run self heard' es))"
    using "3.IH" [OF tick [symmetric]] tick_keeps [OF "3.prems"(2) tick] "3.prems"(1) by auto
  ultimately show ?case using tick by (auto split: prod.splits)
qed simp_all

text \<open>After as many ticks as there are members everybody is known; a silent peer's entry is old.\<close>

definition old_entry :: "gostring \<Rightarrow> nat \<Rightarrow> (gostring, nat) fmap \<Rightarrow> bool" where
  "old_entry u t heard \<longleftrightarrow> map_get 0 heard u \<le> t"

lemma silent_run:
  "silent u members t es \<Longrightarrow> finite members \<Longrightarrow> old_entry u t heard \<Longrightarrow>
     card (unknown self members heard) \<le> ticks es + n \<Longrightarrow>
     card (unknown self members (fst (monitor_run self heard es))) \<le> n \<and>
     old_entry u t (fst (monitor_run self heard es))"
proof (induction self heard es rule: monitor_run.induct)
  case (2 self heard time v es)
  have "unknown self members (monitor_heartbeat heard time v) \<subseteq> unknown self members heard"
    by (auto simp: unknown_def monitor_heartbeat_def)
  then have "card (unknown self members (monitor_heartbeat heard time v)) \<le> card (unknown self members heard)"
    using "2.prems"(2) by (intro card_mono) (auto simp: unknown_def)
  then show ?case
    using 2 by (simp add: silent_def ticks_def old_entry_def monitor_heartbeat_def)
next
  case (3 self heard time ks es)
  obtain heard' dead where tick: "monitor_tick self time ks heard = (heard', dead)"
    by (cases "monitor_tick self time ks heard")
  have e: "set ks = members" "time \<le> t" "silent u members t es" using "3.prems"(1) by (auto simp: silent_def event_time_def)
  have "old_entry u t heard' \<and> card (unknown self members heard') \<le> ticks es + n"
  proof (cases "unknown self members heard = {}")
    case True
    then show ?thesis using tick_learns [OF tick] e "3.prems"(3) by simp
  next
    case False
    then obtain v where v: "v \<in> unknown self members heard" "heard' = fmupd v time heard"
      using tick_learns [OF tick] e by auto
    have "unknown self members heard' = unknown self members heard - {v}"
      using v by (auto simp: unknown_def)
    then have "card (unknown self members heard') = card (unknown self members heard) - 1"
      using v(1) "3.prems"(2) by (simp add: unknown_def)
    then show ?thesis
      using "3.prems"(3,4) v(2) e(2) by (simp add: ticks_def old_entry_def)
  qed
  then show ?case
    using "3.IH" [OF tick [symmetric]] e "3.prems"(2) tick by (auto split: prod.splits)
qed (auto simp: silent_def ticks_def)


lemma known_silent_dies:
  assumes "fmlookup heard u = Some t0 \<and> now - t0 > 1000" "u \<in> set ks" "u \<noteq> self"
    and "unknown self (set ks) heard = {}"
  shows "u \<in> set (snd (monitor_tick self now ks heard))"
proof -
  obtain heard' dead where tick: "monitor_tick self now ks heard = (heard', dead)"
    by (cases "monitor_tick self now ks heard")
  show ?thesis using tick_learns [OF tick] assms tick by simp
qed

text \<open>Without a heartbeat of \<open>u\<close> its entry stays, even when it is declared dead; so that happens again.\<close>

definition no_beat :: "gostring \<Rightarrow> monitor_event list \<Rightarrow> bool" where
  "no_beat u es \<longleftrightarrow> list_all (\<lambda>e. case e of Beat _ v \<Rightarrow> v \<noteq> u | Tick _ ks \<Rightarrow> True | MonitorQuit \<Rightarrow> False) es"

lemma entry_stays:
  "no_beat u es \<Longrightarrow> fmlookup heard u = Some t \<Longrightarrow> fmlookup (fst (monitor_run self heard es)) u = Some t"
proof (induction self heard es rule: monitor_run.induct)
  case (3 self heard now ks es)
  obtain heard' dead where tick: "monitor_tick self now ks heard = (heard', dead)"
    by (cases "monitor_tick self now ks heard")
  show ?case
    using "3.IH" [OF tick [symmetric]] tick_keeps [OF "3.prems"(2) tick] "3.prems"(1) tick
    by (auto simp: no_beat_def split: prod.splits)
qed (auto simp: no_beat_def monitor_heartbeat_def)

lemma no_beat_runs_on: "no_beat u es \<Longrightarrow> MonitorQuit \<notin> set es"
  by (induction es) (auto simp: no_beat_def)

lemma dead_again:
  assumes "MonitorQuit \<notin> set es" "u \<in> set (snd (monitor_tick self t1 ks1 (fst (monitor_run self heard es))))"
    and "no_beat u es'" "t1 \<le> now" "u \<in> set ks"
    and "unknown self (set ks - {u}) (fst (monitor_run self heard (es @ Tick t1 ks1 # es'))) = {}"
  shows "(now, u) \<in> set (snd (monitor_run self heard (es @ Tick t1 ks1 # es' @ [Tick now ks])))"
proof -
  obtain h1 d1 where run: "monitor_run self heard es = (h1, d1)" by (cases "monitor_run self heard es")
  obtain h2 d2 where tick: "monitor_tick self t1 ks1 h1 = (h2, d2)" by (cases "monitor_tick self t1 ks1 h1")
  obtain h3 d3 where run': "monitor_run self h2 es' = (h3, d3)" by (cases "monitor_run self h2 es'")
  obtain t where t: "fmlookup h1 u = Some t" "t1 - t > 1000" "u \<noteq> self"
    using tick_dead [OF tick, of u] assms(2) run tick by auto
  have entry: "fmlookup h3 u = Some t"
    using entry_stays [OF assms(3) tick_keeps [OF t(1) tick], of self] run' by simp
  have "fst (monitor_run self heard (es @ Tick t1 ks1 # es')) = h3"
    using run tick run' by (simp add: monitor_run_append [OF assms(1)])
  then have "unknown self (set ks) h3 = {}" using assms(6) entry by (auto simp: unknown_def)
  then have "u \<in> set (snd (monitor_tick self now ks h3))"
    using known_silent_dies [of h3 u t now ks self] entry t(2,3) assms(4,5) by simp
  then show ?thesis
    using run tick run' monitor_run_append [OF assms(1)] monitor_run_append [OF no_beat_runs_on [OF assms(3)]]
    by (auto split: prod.splits)
qed

section \<open>The follower's monitor\<close>

text \<open>
  The goroutine of \<open>FollowerStateStart\<close>: a beacon, a tick with the server as it finds it, or the closed
  quit channel. It ends with the first tick that finds the leader silent.
\<close>

datatype follower_event = Beacon nat BMessage | FollowerTick nat Server | FollowerQuit

fun follower_run :: "gostring \<Rightarrow> nat \<Rightarrow> follower_event list \<Rightarrow> (Server \<times> effect list) option" where
  "follower_run leaderID lastHeartBeat [] = None"
| "follower_run leaderID lastHeartBeat (Beacon now msg # es) =
     follower_run leaderID (follower_beacon leaderID lastHeartBeat now msg) es"
| "follower_run leaderID lastHeartBeat (FollowerTick now s # es) =
     (case follower_tick s leaderID lastHeartBeat now of
        (s', effs, goes_on) \<Rightarrow> if goes_on then follower_run leaderID lastHeartBeat es else Some (s', effs))"
| "follower_run leaderID lastHeartBeat (FollowerQuit # es) = None"

text \<open>No tick finds the leader's last beacon more than half a second old.\<close>

fun leader_punctual :: "gostring \<Rightarrow> nat \<Rightarrow> follower_event list \<Rightarrow> bool" where
  "leader_punctual leaderID last_time [] = True"
| "leader_punctual leaderID last_time (Beacon now msg # es) =
     leader_punctual leaderID (if bc_UUID msg = leaderID then now else last_time) es"
| "leader_punctual leaderID last_time (FollowerTick now s # es) =
     (now - last_time \<le> 500 \<and> leader_punctual leaderID last_time es)"
| "leader_punctual leaderID last_time (FollowerQuit # es) = leader_punctual leaderID last_time es"

text \<open>When the leader was last heard of: its last beacon, or the start of the monitor.\<close>

definition last_beacon :: "gostring \<Rightarrow> nat \<Rightarrow> follower_event list \<Rightarrow> nat" where
  "last_beacon leaderID start es = last (start # concat (map
     (\<lambda>e. case e of Beacon now msg \<Rightarrow> if bc_UUID msg = leaderID then [now] else [] | _ \<Rightarrow> []) es))"

lemma last_beacon_simps [simp]:
  "last_beacon leaderID start [] = start"
  "last_beacon leaderID start (Beacon now msg # es) = last_beacon leaderID (follower_beacon leaderID start now msg) es"
  "last_beacon leaderID start (FollowerTick now s # es) = last_beacon leaderID start es"
  by (simp_all add: last_beacon_def follower_beacon_def)

text \<open>The monitor ends at the first tick that comes too late after the last beacon, and at no other event.\<close>

definition ends_late :: "gostring \<Rightarrow> nat \<Rightarrow> follower_event list \<Rightarrow> Server \<times> effect list \<Rightarrow> bool" where
  "ends_late leaderID start es r \<longleftrightarrow>
     (\<exists>as now s bs. es = as @ FollowerTick now s # bs \<and> FollowerQuit \<notin> set as \<and> leader_punctual leaderID start as \<and>
        500 < now - last_beacon leaderID start as \<and>
        r = (if sv_leaderID s = leaderID then sm_ChangeTo s ELECTION no_args else (s, [])))"

lemma ex_list: "(\<exists>xs. P xs) \<longleftrightarrow> P [] \<or> (\<exists>x xs. P (x # xs))"
  by (metis neq_Nil_conv)

lemma ends_late_simps:
  "ends_late leaderID start [] r \<longleftrightarrow> False"
  "ends_late leaderID start (Beacon now msg # es) r \<longleftrightarrow> ends_late leaderID (follower_beacon leaderID start now msg) es r"
  "ends_late leaderID start (FollowerTick now s # es) r \<longleftrightarrow>
     (if 500 < now - start then r = (if sv_leaderID s = leaderID then sm_ChangeTo s ELECTION no_args else (s, []))
      else ends_late leaderID start es r)"
  "ends_late leaderID start (FollowerQuit # es) r \<longleftrightarrow> False"
proof -
  show "ends_late leaderID start [] r \<longleftrightarrow> False" by (simp add: ends_late_def)
  show "ends_late leaderID start (FollowerQuit # es) r \<longleftrightarrow> False"
    unfolding ends_late_def by (subst ex_list) simp
  show "ends_late leaderID start (Beacon now msg # es) r \<longleftrightarrow> ends_late leaderID (follower_beacon leaderID start now msg) es r"
    unfolding ends_late_def by (subst ex_list) (simp add: follower_beacon_def)
  show "ends_late leaderID start (FollowerTick now s # es) r \<longleftrightarrow>
     (if 500 < now - start then r = (if sv_leaderID s = leaderID then sm_ChangeTo s ELECTION no_args else (s, []))
      else ends_late leaderID start es r)"
    unfolding ends_late_def by (subst ex_list) (cases "500 < now - start"; simp)
qed

lemma follower_run_Some: "follower_run leaderID start es = Some r \<longleftrightarrow> ends_late leaderID start es r"
proof (induction leaderID start es rule: follower_run.induct)
  case (3 leaderID start now s es)
  then show ?case
    by (cases "sm_ChangeTo s ELECTION no_args") (auto simp: ends_late_simps follower_tick_def split: if_splits)
qed (simp_all add: ends_late_simps)

section \<open>The quit channel of a leader\<close>

text \<open>
  Both goroutines of \<open>LeaderStateStart\<close> read the field \<open>st.quit\<close> anew whenever they enter their
  \<open>select\<close>, and the second one sets it to nil when it ends: \<open>lq_set\<close> says that the field is not nil,
  \<open>lq_closed\<close> that the channel is closed. A goroutine is busy, selects on the channel or on
  nil, or has ended.
\<close>

datatype selecting = Busy | OnQuit | OnNil | Ended

record leader_quit =
  lq_set :: bool
  lq_closed :: bool
  lq_monitor :: selecting
  lq_other :: selecting

definition leader_started :: "leader_quit \<Rightarrow> bool" where
  "leader_started q \<longleftrightarrow> q = \<lparr>lq_set = True, lq_closed = False, lq_monitor = Busy, lq_other = Busy\<rparr>"

definition select_quit :: "leader_quit \<Rightarrow> selecting" where
  "select_quit q = (if lq_set q then OnQuit else OnNil)"

inductive quit_step :: "leader_quit \<Rightarrow> leader_quit \<Rightarrow> bool" where
  quit_Stop: "lq_set q \<Longrightarrow> \<not> lq_closed q \<Longrightarrow> quit_step q (q\<lparr>lq_closed := True\<rparr>)"
| quit_monitor_selects: "lq_monitor q = Busy \<Longrightarrow> quit_step q (q\<lparr>lq_monitor := select_quit q\<rparr>)"
| quit_monitor_event: "lq_monitor q = OnQuit \<or> lq_monitor q = OnNil \<Longrightarrow> quit_step q (q\<lparr>lq_monitor := Busy\<rparr>)"
| quit_monitor_ends: "lq_monitor q = OnQuit \<Longrightarrow> lq_closed q \<Longrightarrow> quit_step q (q\<lparr>lq_monitor := Ended\<rparr>)"
| quit_other_selects: "lq_other q = Busy \<Longrightarrow> quit_step q (q\<lparr>lq_other := select_quit q\<rparr>)"
| quit_other_event: "lq_other q = OnQuit \<or> lq_other q = OnNil \<Longrightarrow> quit_step q (q\<lparr>lq_other := Busy\<rparr>)"
| quit_other_ends: "lq_other q = OnQuit \<Longrightarrow> lq_closed q \<Longrightarrow> quit_step q (q\<lparr>lq_other := Ended, lq_set := False\<rparr>)"
| quit_other_leaves: "lq_other q = OnQuit \<or> lq_other q = OnNil \<Longrightarrow> quit_step q (q\<lparr>lq_other := Ended\<rparr>)"

text \<open>A monitor that has missed the channel never ends.\<close>

definition missed :: "leader_quit \<Rightarrow> bool" where
  "missed q \<longleftrightarrow> \<not> lq_set q \<and> (lq_monitor q = Busy \<or> lq_monitor q = OnNil)"

lemma missed_step: "quit_step q q' \<Longrightarrow> missed q \<Longrightarrow> missed q'"
  by (induction rule: quit_step.induct) (auto simp: missed_def select_quit_def)

interpretation outliving: invariant_system "\<lambda>q. q = q0 \<and> missed q0" quit_step missed for q0
  by unfold_locales (auto intro: missed_step)

text \<open>
  As long as the other goroutine has not ended, the field is not nil; as long as it is not nil, no select
  is on nil; and it is set to nil only after the channel was closed.
\<close>

definition quit_ok :: "leader_quit \<Rightarrow> bool" where
  "quit_ok q \<longleftrightarrow> (lq_other q \<noteq> Ended \<longrightarrow> lq_set q \<and> lq_other q \<noteq> OnNil) \<and>
     (if lq_set q then lq_monitor q \<noteq> OnNil else lq_closed q)"

interpretation quitting: invariant_system leader_started quit_step quit_ok
proof
  fix q assume "leader_started q" then show "quit_ok q" by (simp add: leader_started_def quit_ok_def)
next
  fix q q' assume "quit_step q q'" "quit_ok q" then show "quit_ok q'"
    by (induction rule: quit_step.induct) (auto simp: quit_ok_def select_quit_def split: if_splits)
qed

text \<open>Otherwise it can still end.\<close>

lemma monitor_can_end:
  assumes "quit_ok q" "lq_set q \<or> lq_monitor q = OnQuit"
  shows "\<exists>q'. reach (\<lambda>p. p = q) quit_step q' \<and> lq_monitor q' = Ended"
proof (cases "lq_monitor q = Ended")
  case False
  let ?R = "reach (\<lambda>p. p = q) quit_step"
  have start: "?R q" by (rule reach_init) simp
  obtain q1 where q1: "?R q1" "lq_monitor q1 = OnQuit" "lq_set q1 = lq_set q" "lq_closed q1 = lq_closed q"
  proof (cases "lq_monitor q = OnQuit")
    case True
    then show thesis using that start by blast
  next
    case no: False
    then have "lq_monitor q = Busy" "lq_set q" using assms False by (cases "lq_monitor q"; simp add: quit_ok_def)+
    then have "quit_step q (q\<lparr>lq_monitor := OnQuit\<rparr>)" using quit_monitor_selects [of q] by (simp add: select_quit_def)
    with start have "?R (q\<lparr>lq_monitor := OnQuit\<rparr>)" by (rule reach_step)
    then show thesis using that by simp
  qed
  obtain q2 where q2: "?R q2" "lq_monitor q2 = OnQuit" "lq_closed q2"
  proof (cases "lq_closed q1")
    case True
    then show thesis using that q1 by blast
  next
    case open1: False
    then have "lq_set q1" using assms(1) q1(3,4) by (auto simp: quit_ok_def split: if_splits)
    from q1(1) quit_Stop [OF this open1] have "?R (q1\<lparr>lq_closed := True\<rparr>)" by (rule reach_step)
    then show thesis using that q1(2) by simp
  qed
  from q2(1) quit_monitor_ends [OF q2(2,3)] have "?R (q2\<lparr>lq_monitor := Ended\<rparr>)" by (rule reach_step)
  then show ?thesis by (intro exI [of _ "q2\<lparr>lq_monitor := Ended\<rparr>"]) simp
qed (use reach_init [of "\<lambda>p. p = q" q] in blast)

lemma missed_never_ends: "missed q \<Longrightarrow> reach (\<lambda>p. p = q) quit_step q' \<Longrightarrow> lq_monitor q' \<noteq> Ended"
  using outliving.reach_inv [of q q'] by (auto simp: missed_def)

lemma missed_reached:
  "\<exists>q. reach leader_started quit_step q \<and> lq_closed q \<and> \<not> lq_set q \<and> lq_monitor q = Busy"
proof -
  let ?q0 = "\<lparr>lq_set = True, lq_closed = False, lq_monitor = Busy, lq_other = Busy\<rparr>"
  have "reach leader_started quit_step ?q0" by (simp add: reach_init leader_started_def)
  then have "reach leader_started quit_step (?q0\<lparr>lq_other := OnQuit\<rparr>)"
    by (rule reach_step) (use quit_other_selects [of ?q0] in \<open>simp add: select_quit_def\<close>)
  then have "reach leader_started quit_step (?q0\<lparr>lq_other := OnQuit, lq_closed := True\<rparr>)"
    by (rule reach_step) (use quit_Stop [of "?q0\<lparr>lq_other := OnQuit\<rparr>"] in simp)
  then have "reach leader_started quit_step (?q0\<lparr>lq_other := Ended, lq_closed := True, lq_set := False\<rparr>)"
    by (rule reach_step) (use quit_other_ends [of "?q0\<lparr>lq_other := OnQuit, lq_closed := True\<rparr>"] in simp)
  then show ?thesis
    by (intro exI [of _ "?q0\<lparr>lq_other := Ended, lq_closed := True, lq_set := False\<rparr>"]) simp
qed


section \<open>Properties\<close>

text \<open>C20: the leader's monitor is accurate. A peer that the monitor knows and that is never silent for more
  than a second before a tick is never declared dead, whatever the other peers do and in whatever
  order the ticks walk the table. A follower sends a heartbeat every 180 milliseconds, so that holds
  as long as no five in a row are lost or late.\<close>

theorem punctual_peer_survives:
  assumes "fmlookup heard u = Some t" "punctual u t es"
  shows "(now, u) \<notin> set (snd (monitor_run self heard es))"
  using punctual_lives [OF assms(2,1)] .

theorem punctual_peer_survives_witness:
  "(1900, lit ''bbbb'') \<notin> set (snd (monitor_run (lit ''aaaa'') (fmupd (lit ''bbbb'') 0 fmempty)
     [Beat 900 (lit ''bbbb''), Tick 1400 [lit ''aaaa'', lit ''bbbb''], Tick 1900 [lit ''aaaa'', lit ''bbbb'']]))"
  by (rule punctual_peer_survives) (simp, simp add: lit_def)

text \<open>C21: the leader's monitor is complete. Once there were as many ticks as members, every tick more than a
  second after the last sign of life of a silent peer declares it dead, wherever the walk of the
  table meets peers that the monitor did not know yet.\<close>

theorem silent_peer_declared_dead:
  assumes "silent u members t es" "card members \<le> ticks es" "map_get 0 heard u \<le> t"
    and "set ks = members" "u \<in> members" "u \<noteq> self" "t + 1000 < now"
  shows "(now, u) \<in> set (snd (monitor_run self heard (es @ [Tick now ks])))"
proof -
  obtain heard' deaths where run: "monitor_run self heard es = (heard', deaths)"
    by (cases "monitor_run self heard es")
  have fin: "finite members" using assms(4) by auto
  have "card (unknown self members heard) \<le> card members"
    using fin by (intro card_mono) (auto simp: unknown_def)
  then have "card (unknown self members heard') \<le> 0 \<and> old_entry u t heard'"
    using silent_run [OF assms(1) fin, of heard self 0] assms(2,3) run by (simp add: old_entry_def)
  then have "unknown self members heard' = {}" "map_get 0 heard' u \<le> t"
    using fin by (auto simp: unknown_def old_entry_def)
  moreover from this obtain t0 where "fmlookup heard' u = Some t0"
    using assms(5,6) by (auto simp: unknown_def)
  ultimately have "u \<in> set (snd (monitor_tick self now ks heard'))"
    using known_silent_dies [of heard' u t0 now ks self] assms(4-7) by simp
  moreover have "MonitorQuit \<notin> set es" using assms(1) by (auto simp: silent_def list_all_iff)
  ultimately show ?thesis
    using run by (auto simp: monitor_run_append split: prod.splits)
qed

theorem silent_peer_declared_dead_witness:
  "(2501, lit ''bbbb'') \<in> set (snd (monitor_run (lit ''aaaa'') fmempty
     [Tick 1000 [lit ''aaaa'', lit ''bbbb''], Tick 1500 [lit ''aaaa'', lit ''bbbb''], Tick 2501 [lit ''aaaa'', lit ''bbbb'']]))"
  using silent_peer_declared_dead [of "lit ''bbbb''" "{lit ''aaaa'', lit ''bbbb''}" 1500
      "[Tick 1000 [lit ''aaaa'', lit ''bbbb''], Tick 1500 [lit ''aaaa'', lit ''bbbb'']]" fmempty
      "[lit ''aaaa'', lit ''bbbb'']" "lit ''aaaa''" 2501]
  by (simp add: silent_def event_time_def ticks_def lit_def)

text \<open>C30: a node that comes back is thrown out again. Take a run of the monitor in which a tick declares a peer
  dead. The monitor does not forget when it last heard of it, so when the peer joins again the next
  tick, however soon after, declares it dead once more, unless a heartbeat of it came first; the
  leader then removes it from the table and tells the others.\<close>

theorem rejoined_peer_is_removed:
  assumes "MonitorQuit \<notin> set es" "u \<in> set (snd (monitor_tick self t1 ks1 (fst (monitor_run self heard es))))"
    and "no_beat u es'" "t1 \<le> now"
    and "connectToLeaderHandler s u ip ks0 port True = Some (s', effs)" "self = sv_id s'"
    and "range_order ks (sv_peers s')"
    and "unknown self (set ks - {u}) (fst (monitor_run self heard (es @ Tick t1 ks1 # es'))) = {}"
    and "handleDeadServer s' u ks' = Some (s'', effs')"
  shows "fmlookup (sv_peers s') u = Some ip \<and>
    (now, u) \<in> set (snd (monitor_run self heard (es @ Tick t1 ks1 # es' @ [Tick now ks]))) \<and>
    fmlookup (sv_peers s'') u = None \<and> effs' \<noteq> []"
proof -
  have s': "sv_peers s' = fmupd u ip (sv_peers s)"
    using assms(5) by (auto simp: connectToLeaderHandler_def connect_admit_def connect_switch_def Let_def
        split: option.splits)
  then have "u \<in> set ks" using range_order_mem [OF assms(7)] by simp
  then have "(now, u) \<in> set (snd (monitor_run self heard (es @ Tick t1 ks1 # es' @ [Tick now ks])))"
    using dead_again [OF assms(1-4) _ assms(8)] by simp
  then show ?thesis
    using s' assms(9) by (auto simp: handleDeadServer_def split: option.splits prod.splits)
qed

theorem rejoined_peer_is_removed_witness:
  "\<exists>s' effs s'' effs'.
     connectToLeaderHandler (sample_server (lit ''aaaa'') LEADER) (lit ''cccc'') [3] three_ids 7 True = Some (s', effs) \<and>
     handleDeadServer s' (lit ''cccc'') [] = Some (s'', effs') \<and>
     (5000, lit ''cccc'') \<in> set (snd (monitor_run (lit ''aaaa'') (fmupd (lit ''cccc'') 0 (fmupd (lit ''bbbb'') 4900 fmempty))
       ([] @ Tick 4910 three_ids # [Beat 4950 (lit ''bbbb'')] @ [Tick 5000 three_ids]))) \<and>
     fmlookup (sv_peers s'') (lit ''cccc'') = None"
proof -
  let ?s = "sample_server (lit ''aaaa'') LEADER"
  let ?heard = "fmupd (lit ''cccc'') 0 (fmupd (lit ''bbbb'') 4900 fmempty)"
  have id: "sv_id ?s = lit ''aaaa''" by (simp add: sample_server_def)
  obtain s' effs where s': "connectToLeaderHandler ?s (lit ''cccc'') [3] three_ids 7 True = Some (s', effs)"
    "sv_peers s' = admitted ?s (lit ''cccc'') [3]" "NewReliableMulticast (sv_id ?s) 7 three_ids = Some (sv_rm s')"
    using connect_succeeds [OF sample_table _ _ not_quit, of "lit ''aaaa''" LEADER 7] id three_ids_facts(2,4) by auto
  have id': "sv_id s' = lit ''aaaa''"
    using s'(1) id by (auto simp: connectToLeaderHandler_def connect_admit_def connect_switch_def Let_def split: option.splits)
  obtain data where data: "NewDeadNodeMessage (lit ''cccc'') [3] = Some data"
    using dead_node_message by blast
  have "rm_id (sv_rm s') = lit ''aaaa'' \<and> fmlookup (rm_vectorClock (sv_rm s')) (lit ''aaaa'') = Some 0"
    using new_session_facts [OF s'(3)] id three_ids_facts(4) by simp
  then obtain rm enc frame where "SendMessage (RemoveDeadNode (sv_rm s') (lit ''cccc'')) [] data = Some (rm, enc, frame)"
    by (auto simp: SendMessage_def RemoveDeadNode_def Let_def)
  then obtain s'' effs' where dead: "handleDeadServer s' (lit ''cccc'') [] = Some (s'', effs')"
    using s'(2) data by (auto simp: handleDeadServer_def admitted_def split: prod.splits)
  have ord: "range_order three_ids (sv_peers s')"
    using sample_table [of "lit ''aaaa''" LEADER] s'(2) by (simp add: table_ok_def)
  have first: "lit ''cccc'' \<in> set (snd (monitor_tick (lit ''aaaa'') 4910 three_ids ?heard))"
    by (simp add: three_ids_def lit_def)
  have known: "unknown (lit ''aaaa'') (set three_ids - {lit ''cccc''})
      (fst (monitor_run (lit ''aaaa'') ?heard ([] @ Tick 4910 three_ids # [Beat 4950 (lit ''bbbb'')]))) = {}"
    by (auto simp: unknown_def three_ids_def monitor_heartbeat_def lit_def)
  have "no_beat (lit ''cccc'') [Beat 4950 (lit ''bbbb'')]" by (simp add: no_beat_def lit_def)
  from rejoined_peer_is_removed [where es = "[]", OF _ _ this _ s'(1) id' [symmetric] ord known dead, of 5000] first
  show ?thesis using dead s'(1) by auto
qed

text \<open>C22: the follower's monitor asks for an election exactly when it has to. Whatever beacons and ticks it
  takes, it ends at the first tick more than half a second after the last beacon of its leader (or
  after the start, when there was none) and at no other event. When the server still follows that
  leader, the machine goes to ELECTION and the server starts one; if the server has another leader by
  then, nothing happens. Beacons of other servers do not count, and a beacon of the leader counts
  however many came before it.\<close>

theorem follower_detects_leader:
  "follower_run leaderID start es = Some r \<longleftrightarrow>
     (\<exists>as now s bs. es = as @ FollowerTick now s # bs \<and> FollowerQuit \<notin> set as \<and> leader_punctual leaderID start as \<and>
        500 < now - last_beacon leaderID start as \<and>
        r = (if sv_leaderID s = leaderID then sm_ChangeTo s ELECTION no_args else (s, [])))"
  using follower_run_Some by (simp only: ends_late_def)

theorem follower_detects_leader_witness:
  "follower_run [] 0 [Beacon 300 \<lparr>bc_UUID = [], bc_IP = []\<rparr>, FollowerTick 700 (sample_server (lit ''bbbb'') FOLLOWER),
     Beacon 750 \<lparr>bc_UUID = [7], bc_IP = []\<rparr>, FollowerTick 801 (sample_server (lit ''bbbb'') FOLLOWER)] =
     Some ((sample_server (lit ''bbbb'') FOLLOWER)\<lparr>sv_sm := ELECTION\<rparr>, [Run_Action FollowerToElection no_args])"
  unfolding follower_detects_leader
  by (intro exI [of _ "[Beacon 300 \<lparr>bc_UUID = [], bc_IP = []\<rparr>, FollowerTick 700 (sample_server (lit ''bbbb'') FOLLOWER),
      Beacon 750 \<lparr>bc_UUID = [7], bc_IP = []\<rparr>]"] exI [of _ "801::nat"]
      exI [of _ "sample_server (lit ''bbbb'') FOLLOWER"] exI [of _ "[]"])
    (simp add: follower_beacon_def sample_server_def sm_ChangeTo_def ChangeTo_def transitions_def)

text \<open>C31: a leader's monitor can outlive its office. The goroutine that takes the leader's messages sets the
  field \<open>st.quit\<close> to nil when it sees the channel closed. From then on the monitor can end only if it was
  already selecting on the channel at that moment; as long as the field is not nil it can always
  end. And a state is reachable in which the listener was stopped and the monitor, which was busy with a
  tick, never ends, but selects on a nil channel for ever and goes on to declare peers dead that no
  longer send it heartbeats.\<close>

theorem monitor_outlives_leader:
  assumes "reach leader_started quit_step q"
  shows "((\<exists>q'. reach (\<lambda>p. p = q) quit_step q' \<and> lq_monitor q' = Ended) \<longleftrightarrow>
      lq_set q \<or> lq_monitor q = OnQuit \<or> lq_monitor q = Ended) \<and>
    (\<exists>r. reach leader_started quit_step r \<and> lq_closed r \<and> \<not> lq_set r \<and> lq_monitor r = Busy)"
proof
  have ok: "quit_ok q" using quitting.reach_inv [OF assms] .
  have "missed q" if "\<not> (lq_set q \<or> lq_monitor q = OnQuit \<or> lq_monitor q = Ended)"
    using that by (cases "lq_monitor q") (simp_all add: missed_def)
  then show "(\<exists>q'. reach (\<lambda>p. p = q) quit_step q' \<and> lq_monitor q' = Ended) \<longleftrightarrow>
      lq_set q \<or> lq_monitor q = OnQuit \<or> lq_monitor q = Ended"
    using monitor_can_end [OF ok] missed_never_ends reach_init [of "\<lambda>p. p = q" q] by blast
qed (rule missed_reached)

theorem monitor_outlives_leader_witness:
  "\<exists>q. reach leader_started quit_step q \<and> lq_closed q \<and>
     \<not> (\<exists>q'. reach (\<lambda>p. p = q) quit_step q' \<and> lq_monitor q' = Ended)"
proof -
  obtain q where q: "reach leader_started quit_step q" "lq_closed q" "\<not> lq_set q" "lq_monitor q = Busy"
    using missed_reached by blast
  with monitor_outlives_leader [OF q(1)] show ?thesis by auto
qed

end
