(* ===== verification/Connections.thy ===== *)
theory Connections
  imports Chat
begin

text \<open>
  The goroutines of the chat connections, \<^verbatim>\<open>server/client.go\<close>: \<open>Start\<close>'s accept loop, one \<open>handleConn\<close> per
  connection, and the goroutine that writes the application messages to all clients, interleaved,
  with the two channels between them and the rest of the server.
\<close>

section \<open>Connections in progress\<close>

text \<open>
  A \<open>handleConn\<close> goroutine: started; reading, with the lines that its client still sends; or waiting
  to put a line on \<open>clientMsgChan\<close>, then on \<open>applicationMsgChan\<close>.
\<close>

datatype conn_state =
  Started bytes
| Reads "gostring list"
| ToMulticast gostring "gostring list"
| ToClients gostring "gostring list"

text \<open>
  The two channels hold at most ten lines. For the record: the lines put on \<open>applicationMsgChan\<close> with
  the connection they came from (\<open>None\<close> for the multicast dispatcher), the lines taken from it, what
  was written to each connection, how many lines had been taken when it was added, and what it sends.
\<close>

record connections =
  cn_server :: ClientServer
  cn_next :: nat
  cn_conns :: "nat \<Rightarrow> conn_state option"
  cn_clientMsgs :: "gostring list"
  cn_appMsgs :: "gostring list"
  cn_put :: "(nat option \<times> gostring) list"
  cn_taken :: "gostring list"
  cn_written :: "nat \<Rightarrow> bytes list"
  cn_since :: "nat \<Rightarrow> nat"
  cn_sends :: "nat \<Rightarrow> gostring list"

definition channel_size :: nat where
  "channel_size = 10"

definition connections_init :: "gostring \<Rightarrow> connections \<Rightarrow> bool" where
  "connections_init ip c \<longleftrightarrow> c = \<lparr>cn_server = \<lparr>cs_ip = ip, cs_clients = []\<rparr>, cn_next = 0, cn_conns = (\<lambda>n. None),
     cn_clientMsgs = [], cn_appMsgs = [], cn_put = [], cn_taken = [], cn_written = (\<lambda>n. []),
     cn_since = (\<lambda>n. 0), cn_sends = (\<lambda>n. [])\<rparr>"

text \<open>What \<open>sendMessageToConnectedClients\<close> writes, connection by connection.\<close>

definition write_all :: "(nat \<times> bytes) list \<Rightarrow> (nat \<Rightarrow> bytes list) \<Rightarrow> nat \<Rightarrow> bytes list" where
  "write_all ws written n = written n @ map snd (filter (\<lambda>(k, b). k = n) ws)"

inductive conn_step :: "connections \<Rightarrow> connections \<Rightarrow> bool" where
  conn_accept: "accept_conn (cn_server c) state peers randomPeer = Some Serve \<Longrightarrow>
     conn_step c (c\<lparr>cn_next := Suc (cn_next c), cn_conns := (cn_conns c)(cn_next c := Some (Started stream)),
       cn_sends := (cn_sends c)(cn_next c := scan_lines stream)\<rparr>)"
| conn_redirect: "accept_conn (cn_server c) state peers randomPeer = Some (Redirect r) \<Longrightarrow>
     conn_step c (c\<lparr>cn_next := Suc (cn_next c), cn_written := (cn_written c)(cn_next c := [r])\<rparr>)"
| conn_refuse: "accept_conn (cn_server c) state peers randomPeer = Some Refused \<Longrightarrow>
     conn_step c (c\<lparr>cn_next := Suc (cn_next c)\<rparr>)"
| conn_add: "cn_conns c n = Some (Started stream) \<Longrightarrow>
     conn_step c (c\<lparr>cn_server := addClient (cn_server c) n, cn_conns := (cn_conns c)(n := Some (Reads (scan_lines stream))),
       cn_since := (cn_since c)(n := length (cn_taken c))\<rparr>)"
| conn_scan: "cn_conns c n = Some (Reads (l # ls)) \<Longrightarrow>
     conn_step c (c\<lparr>cn_conns := (cn_conns c)(n := Some (ToMulticast l ls))\<rparr>)"
| conn_to_multicast: "cn_conns c n = Some (ToMulticast l ls) \<Longrightarrow> length (cn_clientMsgs c) < channel_size \<Longrightarrow>
     conn_step c (c\<lparr>cn_clientMsgs := cn_clientMsgs c @ [l], cn_conns := (cn_conns c)(n := Some (ToClients l ls))\<rparr>)"
| conn_to_clients: "cn_conns c n = Some (ToClients l ls) \<Longrightarrow> length (cn_appMsgs c) < channel_size \<Longrightarrow>
     conn_step c (c\<lparr>cn_appMsgs := cn_appMsgs c @ [l], cn_put := cn_put c @ [(Some n, l)],
       cn_conns := (cn_conns c)(n := Some (Reads ls))\<rparr>)"
| conn_end: "cn_conns c n = Some (Reads ls) \<Longrightarrow>
     conn_step c (c\<lparr>cn_server := fst (removeClient (cn_server c) n), cn_conns := (cn_conns c)(n := None)\<rparr>)"
| conn_deliver: "cn_appMsgs c = l # ls \<Longrightarrow>
     conn_step c (c\<lparr>cn_appMsgs := ls, cn_taken := cn_taken c @ [l],
       cn_written := write_all (sendMessageToConnectedClients (cn_server c) l) (cn_written c)\<rparr>)"
| conn_multicast_line: "length (cn_appMsgs c) < channel_size \<Longrightarrow>
     conn_step c (c\<lparr>cn_appMsgs := cn_appMsgs c @ [l], cn_put := cn_put c @ [(None, l)]\<rparr>)"
| conn_multicast_sent: "cn_clientMsgs c = l # ls \<Longrightarrow> conn_step c (c\<lparr>cn_clientMsgs := ls\<rparr>)"

section \<open>The invariant\<close>

definition is_client :: "conn_state option \<Rightarrow> bool" where
  "is_client s = (case s of None \<Rightarrow> False | Some (Started stream) \<Rightarrow> False | Some _ \<Rightarrow> True)"

text \<open>The lines of a connection that are still to come to \<open>applicationMsgChan\<close>.\<close>

definition to_come :: "conn_state option \<Rightarrow> gostring list" where
  "to_come s = (case s of None \<Rightarrow> [] | Some (Started stream) \<Rightarrow> scan_lines stream | Some (Reads ls) \<Rightarrow> ls
     | Some (ToMulticast l ls) \<Rightarrow> l # ls | Some (ToClients l ls) \<Rightarrow> l # ls)"

definition put_by :: "nat \<Rightarrow> (nat option \<times> gostring) list \<Rightarrow> gostring list" where
  "put_by n xs = map snd (filter (\<lambda>(k, l). k = Some n) xs)"

text \<open>
  The clients are the connections that were added and have not ended; the channels are within their
  size and in order; no line of a connection is lost or repeated on its way to \<open>applicationMsgChan\<close>;
  and every client was written what was taken from it since it was added.
\<close>

definition clients_ok :: "connections \<Rightarrow> bool" where
  "clients_ok c \<longleftrightarrow> distinct (cs_clients (cn_server c)) \<and>
     (\<forall>n. n \<in> set (cs_clients (cn_server c)) \<longleftrightarrow> is_client (cn_conns c n)) \<and>
     (\<forall>n. cn_next c \<le> n \<longrightarrow> cn_conns c n = None)"

definition channels_ok :: "connections \<Rightarrow> bool" where
  "channels_ok c \<longleftrightarrow> length (cn_appMsgs c) \<le> channel_size \<and> length (cn_clientMsgs c) \<le> channel_size \<and>
     map snd (cn_put c) = cn_taken c @ cn_appMsgs c"

definition lines_ok :: "connections \<Rightarrow> bool" where
  "lines_ok c \<longleftrightarrow> (\<forall>n. cn_next c \<le> n \<longrightarrow> put_by n (cn_put c) = []) \<and>
     (\<forall>n. \<exists>rest. cn_sends c n = put_by n (cn_put c) @ to_come (cn_conns c n) @ rest \<and>
        (cn_conns c n \<noteq> None \<longrightarrow> rest = []))"

definition writes_ok :: "connections \<Rightarrow> bool" where
  "writes_ok c \<longleftrightarrow> (\<forall>n. cn_next c \<le> n \<longrightarrow> cn_written c n = []) \<and>
     (\<forall>n stream. cn_conns c n = Some (Started stream) \<longrightarrow> cn_written c n = []) \<and>
     (\<forall>n. is_client (cn_conns c n) \<longrightarrow> cn_since c n \<le> length (cn_taken c) \<and>
        cn_written c n = map (\<lambda>l. l @ [10]) (drop (cn_since c n) (cn_taken c)))"

definition conn_inv :: "connections \<Rightarrow> bool" where
  "conn_inv c \<longleftrightarrow> clients_ok c \<and> channels_ok c \<and> lines_ok c \<and> writes_ok c"

lemma put_by_simps [simp]:
  "put_by n [] = []" "put_by n (xs @ ys) = put_by n xs @ put_by n ys"
  "put_by n ((k, l) # xs) = (if k = Some n then l # put_by n xs else put_by n xs)"
  by (simp_all add: put_by_def)

lemma write_all_clients:
  "distinct (cs_clients s) \<Longrightarrow>
   write_all (sendMessageToConnectedClients s l) written n =
     (if n \<in> set (cs_clients s) then written n @ [l @ [10]] else written n)"
proof -
  have "distinct cs \<Longrightarrow> map snd (filter (\<lambda>(k, b). k = n) (map (\<lambda>k. (k, l @ [10])) cs)) =
      (if n \<in> set cs then [l @ [10]] else [])" for cs
    by (induction cs) auto
  then show "distinct (cs_clients s) \<Longrightarrow> ?thesis"
    by (simp add: write_all_def sendMessageToConnectedClients_def)
qed

lemma is_client_simps [simp]:
  "\<not> is_client None" "\<not> is_client (Some (Started stream))" "is_client (Some (Reads ls))"
  "is_client (Some (ToMulticast l ls))" "is_client (Some (ToClients l ls))"
  by (simp_all add: is_client_def)

lemma to_come_simps [simp]:
  "to_come None = []" "to_come (Some (Started stream)) = scan_lines stream" "to_come (Some (Reads ls)) = ls"
  "to_come (Some (ToMulticast l ls)) = l # ls" "to_come (Some (ToClients l ls)) = l # ls"
  by (simp_all add: to_come_def)

lemma step_clients: "conn_step c c' \<Longrightarrow> clients_ok c \<Longrightarrow> clients_ok c'"
  by (induction rule: conn_step.induct)
    (auto simp: clients_ok_def addClient_def removeClient_def)

lemma step_channels: "conn_step c c' \<Longrightarrow> channels_ok c \<Longrightarrow> channels_ok c'"
  by (induction rule: conn_step.induct) (auto simp: channels_ok_def)


lemma step_lines:
  "conn_step c c' \<Longrightarrow> lines_ok c \<Longrightarrow> clients_ok c \<Longrightarrow> lines_ok c'"
  by (induction rule: conn_step.induct)
    (fastforce simp: lines_ok_def clients_ok_def)+

lemma step_writes:
  "conn_step c c' \<Longrightarrow> writes_ok c \<Longrightarrow> clients_ok c \<Longrightarrow> writes_ok c'"
  by (induction rule: conn_step.induct)
    (fastforce simp: writes_ok_def clients_ok_def write_all_clients)+

interpretation chat_connections: invariant_system "connections_init ip" conn_step conn_inv for ip
proof
  fix c assume "connections_init ip c"
  then show "conn_inv c"
    by (simp add: connections_init_def conn_inv_def clients_ok_def channels_ok_def lines_ok_def writes_ok_def put_by_def)
next
  fix c c' assume "conn_step c c'" "conn_inv c" then show "conn_inv c'"
    using step_clients step_channels step_lines step_writes by (simp add: conn_inv_def)
qed


section \<open>A connection that says hi\<close>

definition empty_server :: connections where
  "empty_server = \<lparr>cn_server = \<lparr>cs_ip = lit ''10.0.0.1'', cs_clients = []\<rparr>, cn_next = 0, cn_conns = (\<lambda>n. None),
     cn_clientMsgs = [], cn_appMsgs = [], cn_put = [], cn_taken = [], cn_written = (\<lambda>n. []),
     cn_since = (\<lambda>n. 0), cn_sends = (\<lambda>n. [])\<rparr>"

lemma hi_lines: "scan_lines [104, 105, 10] = [[104, 105]]"
  by (simp add: scan_lines_def drop_cr_def MaxScanTokenSize_def)

lemma hi_reach:
  "\<exists>c. reach (connections_init (lit ''10.0.0.1'')) conn_step c \<and> cs_clients (cn_server c) = [0] \<and>
     cn_since c 0 = 0 \<and> cn_taken c = [[104, 105]]"
proof -
  let ?r = "reach (connections_init (lit ''10.0.0.1'')) conn_step"
  let ?c1 = "empty_server\<lparr>cn_next := 1, cn_conns := (\<lambda>n. None)(0 := Some (Started [104, 105, 10])),
    cn_sends := (\<lambda>n. [])(0 := [[104, 105]])\<rparr>"
  let ?c2 = "?c1\<lparr>cn_server := \<lparr>cs_ip = lit ''10.0.0.1'', cs_clients = [0]\<rparr>,
    cn_conns := (\<lambda>n. None)(0 := Some (Reads [[104, 105]])), cn_since := (\<lambda>n. 0)(0 := 0)\<rparr>"
  let ?c3 = "?c2\<lparr>cn_conns := (\<lambda>n. None)(0 := Some (ToMulticast [104, 105] []))\<rparr>"
  let ?c4 = "?c3\<lparr>cn_clientMsgs := [[104, 105]], cn_conns := (\<lambda>n. None)(0 := Some (ToClients [104, 105] []))\<rparr>"
  let ?c5 = "?c4\<lparr>cn_appMsgs := [[104, 105]], cn_put := [(Some 0, [104, 105])],
    cn_conns := (\<lambda>n. None)(0 := Some (Reads []))\<rparr>"
  have r0: "?r empty_server" by (rule reach_init) (simp add: connections_init_def empty_server_def)
  have "accept_conn (cn_server empty_server) FOLLOWER 2 (lit ''10.0.0.2'') = Some Serve"
    by (simp add: accept_conn_def)
  then have "conn_step empty_server ?c1"
    using conn_accept [of empty_server FOLLOWER 2 "lit ''10.0.0.2''" "[104, 105, 10]"]
    by (simp add: hi_lines empty_server_def)
  with r0 have r1: "?r ?c1" by (rule reach_step)
  have "conn_step ?c1 ?c2"
    using conn_add [of ?c1 0 "[104, 105, 10]"] by (simp add: hi_lines empty_server_def addClient_def)
  with r1 have r2: "?r ?c2" by (rule reach_step)
  have "conn_step ?c2 ?c3" using conn_scan [of ?c2 0 "[104, 105]" "[]"] by simp
  with r2 have r3: "?r ?c3" by (rule reach_step)
  have "conn_step ?c3 ?c4"
    using conn_to_multicast [of ?c3 0 "[104, 105]" "[]"] by (simp add: channel_size_def empty_server_def)
  with r3 have r4: "?r ?c4" by (rule reach_step)
  have "conn_step ?c4 ?c5"
    using conn_to_clients [of ?c4 0 "[104, 105]" "[]"] by (simp add: channel_size_def empty_server_def)
  with r4 have r5: "?r ?c5" by (rule reach_step)
  let ?c6 = "?c5\<lparr>cn_appMsgs := [], cn_taken := cn_taken ?c5 @ [[104, 105]],
    cn_written := write_all (sendMessageToConnectedClients (cn_server ?c5) [104, 105]) (cn_written ?c5)\<rparr>"
  have "conn_step ?c5 ?c6" by (rule conn_deliver) simp
  with r5 have "?r ?c6" by (rule reach_step)
  then show ?thesis by (intro exI [of _ ?c6]) (simp add: empty_server_def)
qed

section \<open>Properties\<close>

text \<open>C18: the server's side of the chat. However the accept loop, the connections and the writer interleave,
  every connected client has been written exactly the lines taken from the channel since it was
  added, each once and in that order; those are the first of the lines put on the channel, all but at
  most ten; and what a connection has put there is the beginning of what its client sends, in order. So a
  client sees its own lines and those of everybody else, and all clients see them in the same order.\<close>

theorem clients_see_the_channel:
  assumes "reach (connections_init ip) conn_step c"
  shows "(n \<in> set (cs_clients (cn_server c)) \<longrightarrow>
      cn_written c n = map (\<lambda>l. l @ [10]) (drop (cn_since c n) (cn_taken c))) \<and>
    (\<exists>rest. map snd (cn_put c) = cn_taken c @ rest \<and> length rest \<le> 10) \<and>
    (\<exists>rest. cn_sends c n = put_by n (cn_put c) @ rest)"
  using chat_connections.reach_inv [OF assms]
  by (auto simp: conn_inv_def clients_ok_def channels_ok_def lines_ok_def writes_ok_def channel_size_def)

theorem clients_see_the_channel_witness:
  "\<exists>c. reach (connections_init (lit ''10.0.0.1'')) conn_step c \<and> cn_written c 0 = [[104, 105, 10]]"
proof -
  obtain c where c: "reach (connections_init (lit ''10.0.0.1'')) conn_step c" "cs_clients (cn_server c) = [0]"
    "cn_since c 0 = 0" "cn_taken c = [[104, 105]]"
    using hi_reach by blast
  then show ?thesis using clients_see_the_channel [OF c(1), of 0] by (intro exI [of _ c]) simp
qed

end
