(* ===== verification/Lifecycle.thy ===== *)
theory Lifecycle
  imports FailureDetector Connections
begin

text \<open>
  The life of the process: the port for a new session, the start in \<^verbatim>\<open>main.go\<close>, and \<open>Shutdown\<close> with
  the channels that it closes (\<^verbatim>\<open>server/server.go\<close>, \<^verbatim>\<open>server/client.go\<close>,
  \<^verbatim>\<open>server/unicast/unicast.go\<close>, \<^verbatim>\<open>server/broadcast/broadcast.go\<close>). \<open>None\<close> is a panic.
\<close>

section \<open>A free port\<close>

text \<open>
  \<open>getRandomUDPPort\<close> draws up to twenty ports and takes the first that can be bound; \<open>draws\<close> are the
  results of \<open>rand.IntN(65535-5010+1)\<close>, \<open>free\<close> says which ports can be bound. \<open>None\<close> is the error.
\<close>

fun try_ports :: "(nat \<Rightarrow> bool) \<Rightarrow> nat \<Rightarrow> nat list \<Rightarrow> u32 option" where
  "try_ports free 0 draws = None"
| "try_ports free (Suc n) [] = None"
| "try_ports free (Suc n) (r # rs) =
     (let port = r + 5010 in if free port then Some (of_nat port) else try_ports free n rs)"

definition getRandomUDPPort :: "(nat \<Rightarrow> bool) \<Rightarrow> nat list \<Rightarrow> u32 option" where
  "getRandomUDPPort free draws = try_ports free 20 draws"

text \<open>\<open>connectToLeaderHandler\<close> ignores the error and goes on with the zero value.\<close>

definition session_port :: "(nat \<Rightarrow> bool) \<Rightarrow> nat list \<Rightarrow> u32" where
  "session_port free draws = (case getRandomUDPPort free draws of None \<Rightarrow> 0 | Some port \<Rightarrow> port)"

section \<open>Channels\<close>

text \<open>\<open>emptyChannel\<close> discards what is buffered.\<close>

fun emptyChannel :: "'a list \<Rightarrow> 'a list" where
  "emptyChannel [] = []"
| "emptyChannel (x # xs) = emptyChannel xs"

lemma emptyChannel_empties: "emptyChannel xs = []"
  by (induction xs) simp_all

text \<open>Closing a quit channel, which is open (\<open>False\<close>) or closed already.\<close>

definition close_quit :: "bool \<Rightarrow> bool option" where
  "close_quit closed = (if closed then None else Some True)"

section \<open>The process\<close>

text \<open>The server with the quit channels of its parts; the multicast session's is \<open>rm_quit\<close>.\<close>

record process =
  pr_server :: Server
  pr_quit :: bool
  pr_broadcast_closed :: bool
  pr_clients_quit :: bool
  pr_unicast_quit :: bool

definition start_process :: "gostring \<Rightarrow> gostring \<Rightarrow> u32 \<Rightarrow> process option" where
  "start_process uid ip port =
     map_option (\<lambda>s. \<lparr>pr_server = s, pr_quit = False, pr_broadcast_closed = False, pr_clients_quit = False,
         pr_unicast_quit = False\<rparr>)
       (NewServer uid ip port)"

definition Broadcaster_Shutdown :: "process \<Rightarrow> process" where
  "Broadcaster_Shutdown p = p\<lparr>pr_broadcast_closed := True\<rparr>"

definition ClientServer_Shutdown :: "process \<Rightarrow> process option" where
  "ClientServer_Shutdown p = map_option (\<lambda>q. p\<lparr>pr_clients_quit := q\<rparr>) (close_quit (pr_clients_quit p))"

definition ReliableUnicast_Shutdown :: "process \<Rightarrow> process option" where
  "ReliableUnicast_Shutdown p = map_option (\<lambda>q. p\<lparr>pr_unicast_quit := q\<rparr>) (close_quit (pr_unicast_quit p))"

definition Server_Shutdown :: "process \<Rightarrow> process option" where
  "Server_Shutdown p =
     Option.bind (close_quit (pr_quit p)) (\<lambda>q.
     Option.bind (ClientServer_Shutdown (Broadcaster_Shutdown (p\<lparr>pr_quit := q\<rparr>))) (\<lambda>p.
     Option.bind (Shutdown (sv_rm (pr_server p))) (\<lambda>rm.
     ReliableUnicast_Shutdown (p\<lparr>pr_server := (pr_server p)\<lparr>sv_rm := rm\<rparr>\<rparr>))))"

text \<open>\<open>main\<close> on a signal.\<close>

datatype exit_status = Clean | Panicked

definition on_signal :: "process \<Rightarrow> exit_status" where
  "on_signal p = (case Server_Shutdown p of None \<Rightarrow> Panicked | Some p' \<Rightarrow> Clean)"

text \<open>
  The two methods that end the process on purpose, which \<open>main\<close> has commented out. The state of a
  follower is read once, so a server that is none then is watched for ever.
\<close>

datatype kill_result = Spared | Killed | Watched_Forever

definition KillLeaderAfter :: "State \<Rightarrow> kill_result" where
  "KillLeaderAfter state = (if state = LEADER then Killed else Spared)"

definition KillFollowerAfter :: "nat \<Rightarrow> State \<Rightarrow> kill_result" where
  "KillFollowerAfter r state = (if r < 7 then Spared else if state = FOLLOWER then Killed else Watched_Forever)"

section \<open>Facts\<close>

lemma try_ports_result:
  "list_all (\<lambda>r. r < 60526) draws \<Longrightarrow> n \<le> length draws \<Longrightarrow>
     (case try_ports free n draws of
        Some port \<Rightarrow> 5010 \<le> unat port \<and> unat port \<le> 65535 \<and> free (unat port)
      | None \<Rightarrow> list_all (\<lambda>r. \<not> free (r + 5010)) (take n draws))"
proof (induction free n draws rule: try_ports.induct)
  case (3 free n r rs)
  have "unat (of_nat (r + 5010) :: u32) = r + 5010"
    using "3.prems"(1) by (simp add: unat_of_nat del: of_nat_add)
  then show ?case using 3 by (auto simp: Let_def simp del: of_nat_add split: option.splits)
qed simp_all

lemma shutdown_iff:
  "Server_Shutdown p = None \<longleftrightarrow>
     pr_quit p \<or> pr_clients_quit p \<or> rm_quit (sv_rm (pr_server p)) \<or> pr_unicast_quit p"
  by (auto simp: Server_Shutdown_def close_quit_def ClientServer_Shutdown_def ReliableUnicast_Shutdown_def
      Broadcaster_Shutdown_def Shutdown_def bind_eq_None_conv)

lemma shutdown_closes:
  "Server_Shutdown p = Some p' \<Longrightarrow> pr_quit p' \<and> pr_broadcast_closed p' \<and> pr_clients_quit p' \<and>
     rm_quit (sv_rm (pr_server p')) \<and> pr_unicast_quit p'"
  by (auto simp: Server_Shutdown_def close_quit_def ClientServer_Shutdown_def ReliableUnicast_Shutdown_def
      Broadcaster_Shutdown_def Shutdown_def bind_eq_Some_conv split: if_splits)

lemma NewServer_not_quit: "NewServer uid ip port = Some s \<Longrightarrow> \<not> rm_quit (sv_rm s)"
  using new_session_cases [of uid port "[uid]"] by (auto simp: NewServer_def split: option.splits)

section \<open>Properties\<close>

text \<open>The port of a session. Whatever is drawn, a port that is found is between 5010 and 65535 and could
  be bound; if none of the twenty can be, the function fails, but the leader ignores the error and
  announces a session on port 0, which no search ever returns.\<close>

lemma random_port:
  assumes "list_all (\<lambda>r. r < 60526) draws" "20 \<le> length draws"
  shows "(case getRandomUDPPort free draws of
       Some port \<Rightarrow> 5010 \<le> unat port \<and> unat port \<le> 65535 \<and> free (unat port)
     | None \<Rightarrow> list_all (\<lambda>r. \<not> free (r + 5010)) (take 20 draws)) \<and>
    (session_port free draws = 0) = (getRandomUDPPort free draws = None)"
proof -
  note r = try_ports_result [OF assms, of free]
  then have "try_ports free 20 draws \<noteq> Some 0" by (auto split: option.splits)
  then show ?thesis
    using r by (auto simp: getRandomUDPPort_def session_port_def split: option.splits)
qed

lemma random_port_witness:
  "getRandomUDPPort (\<lambda>p. p = 5012) (2 # replicate 19 0) = Some 5012 \<and>
   session_port (\<lambda>p. p = 5012) (2 # replicate 19 0) \<noteq> 0"
proof -
  have run: "getRandomUDPPort (\<lambda>p. p = 5012) (2 # replicate 19 0) = Some 5012"
    using try_ports.simps(3) [of "\<lambda>p. p = 5012" 19 2 "replicate 19 0"] by (simp add: getRandomUDPPort_def)
  have "list_all (\<lambda>r. r < 60526) (2 # replicate 19 (0 :: nat))" "20 \<le> length (2 # replicate 19 (0 :: nat))"
    by (simp_all add: list_all_iff)
  from random_port [OF this, of "\<lambda>p. p = 5012"] run show ?thesis by simp
qed

text \<open>The end of the process. Shutting down closes everything exactly once: it succeeds for a server that
  has just started, and then everything is closed; it panics when a part was closed before. So the
  signal ends the process with a panic, with the mutex held, once the server has joined a session on
  the port it already had, because that closed its session without opening another.\<close>

lemma shutdown_clean:
  "(on_signal p = Clean) = (\<not> pr_quit p \<and> \<not> pr_clients_quit p \<and> \<not> rm_quit (sv_rm (pr_server p)) \<and> \<not> pr_unicast_quit p) \<and>
   (start_process uid ip port = Some q \<longrightarrow> on_signal q = Clean) \<and>
   (joinMulticastFromPeerInfo (pr_server p) info = Some (s', []) \<longrightarrow> on_signal (p\<lparr>pr_server := s'\<rparr>) = Panicked)"
proof -
  have clean: "(on_signal p = Clean) = (\<not> pr_quit p \<and> \<not> pr_clients_quit p \<and> \<not> rm_quit (sv_rm (pr_server p)) \<and>
      \<not> pr_unicast_quit p)" for p
    using shutdown_iff [of p] by (auto simp: on_signal_def split: option.splits)
  have start: "start_process uid ip port = Some q \<longrightarrow> on_signal q = Clean"
    unfolding clean using NewServer_not_quit by (auto simp: start_process_def)
  have "rm_quit (sv_rm s')" if "joinMulticastFromPeerInfo (pr_server p) info = Some (s', [])"
    using that by (auto simp: joinMulticastFromPeerInfo_def Shutdown_def split: sum.splits option.splits if_splits)
  then have "joinMulticastFromPeerInfo (pr_server p) info = Some (s', []) \<longrightarrow> on_signal (p\<lparr>pr_server := s'\<rparr>) = Panicked"
    using clean [of "p\<lparr>pr_server := s'\<rparr>"] by (cases "on_signal (p\<lparr>pr_server := s'\<rparr>)") auto
  then show ?thesis using clean start by blast
qed


lemma shutdown_clean_witness:
  "\<exists>q. start_process (lit ''aaaa'') [1] 7 = Some q \<and> on_signal q = Clean \<and> \<not> pr_quit q"
proof -
  obtain s where "NewServer (lit ''aaaa'') [1] 7 = Some s"
    using new_session_exists [of "lit ''aaaa''" "[lit ''aaaa'']" 7] by (auto simp: NewServer_def lit_def)
  then obtain q where "start_process (lit ''aaaa'') [1] 7 = Some q" "\<not> pr_quit q"
    by (auto simp: start_process_def)
  then show ?thesis using shutdown_clean [of q "lit ''aaaa''" "[1]" 7 q] by blast
qed

end
