(* ===== verification/NetUtils.thy ===== *)
theory NetUtils
  imports GoBytes
begin

text \<open>
  The address arithmetic of \<^verbatim>\<open>server/utils.go\<close>: the server's own address and the broadcast
  address of its network.
\<close>

unbundle bit_operations_syntax

section \<open>Addresses\<close>

text \<open>
  \<open>net.IP.To4\<close>: a 4-byte address, or the last four bytes of a 16-byte one with the prefix of mapped
  IPv4 addresses. \<open>IsLoopback\<close> looks at the first byte of an IPv4 address.
\<close>

definition To4 :: "bytes \<Rightarrow> bytes option" where
  "To4 ip =
     (if length ip = 4 then Some ip
      else if length ip = 16 \<and> take 12 ip = zeros 10 @ [255, 255] then Some (drop 12 ip)
      else None)"

definition IsLoopback :: "bytes \<Rightarrow> bool" where
  "IsLoopback ip =
     (case To4 ip of Some ip4 \<Rightarrow> ip4 ! 0 = 127 | None \<Rightarrow> ip = zeros 15 @ [1])"

text \<open>An interface address: whether it is a \<open>*net.IPNet\<close>, and then its address and mask.\<close>

record net_addr =
  na_isIPNet :: bool
  na_IP :: bytes
  na_Mask :: bytes

fun LocalIP :: "net_addr list \<Rightarrow> net_addr option" where
  "LocalIP [] = None"
| "LocalIP (a # addrs) =
     (if na_isIPNet a \<and> \<not> IsLoopback (na_IP a) \<and> To4 (na_IP a) \<noteq> None then Some a
      else LocalIP addrs)"

datatype ip_error = Not_IPv4 | Mask_Panic

definition BroadcastIP :: "net_addr \<Rightarrow> ip_error + bytes" where
  "BroadcastIP a =
     (case To4 (na_IP a) of
        None \<Rightarrow> Inl Not_IPv4
      | Some ip \<Rightarrow>
          (case To4 (na_Mask a) of
             None \<Rightarrow> Inl Mask_Panic
           | Some bits \<Rightarrow> Inr (put_u32 (of_nat (be_value ip) OR NOT (of_nat (be_value bits))))))"

section \<open>What they compute\<close>

lemma To4_length: "To4 ip = Some v \<Longrightarrow> length v = 4"
  by (auto simp: To4_def split: if_splits)

text \<open>The own address is the first one that is IPv4 and not a loopback address.\<close>

lemma LocalIP_find:
  "LocalIP addrs = List.find (\<lambda>a. na_isIPNet a \<and> \<not> IsLoopback (na_IP a) \<and> To4 (na_IP a) \<noteq> None) addrs"
  by (induction addrs) auto

text \<open>
  The broadcast address agrees with the own address on the network's bits and has every other bit
  set.
\<close>

lemma broadcast_bits:
  fixes ip mask :: u32
  shows "(ip OR NOT mask) AND mask = ip AND mask" "(ip OR NOT mask) AND NOT mask = NOT mask"
  by (auto intro!: bit_word_eqI simp: bit_simps)

section \<open>Properties\<close>

text \<open>The broadcast address agrees with the own address on the bits of the network and has every
  other bit set.\<close>

lemma broadcast_address:
  assumes "To4 (na_IP a) = Some ip" "To4 (na_Mask a) = Some bits"
  shows "\<exists>w. BroadcastIP a = Inr (put_u32 w) \<and>
    w AND of_nat (be_value bits) = of_nat (be_value ip) AND of_nat (be_value bits) \<and>
    w AND NOT (of_nat (be_value bits)) = NOT (of_nat (be_value bits) :: u32)"
  using assms by (auto simp: BroadcastIP_def broadcast_bits)

lemma broadcast_address_witness:
  "\<exists>w. BroadcastIP \<lparr>na_isIPNet = True, na_IP = [192, 168, 7, 9], na_Mask = [255, 255, 255, 0]\<rparr> = Inr (put_u32 w) \<and>
    w AND 0xFFFFFF00 = 0xC0A80700"
  using broadcast_address [of "\<lparr>na_isIPNet = True, na_IP = [192, 168, 7, 9], na_Mask = [255, 255, 255, 0]\<rparr>"]
  by (force simp: To4_def be_value_def)

end
