(* ===== verification/Spec2Isabelle.thy ===== *)
theory Spec2Isabelle
  imports Messages UnicastProtocol MulticastSending ChatRoom ServerRaces Locks ClientProgram Lifecycle
    NetUtils
begin

text \<open>
  A distributed chat in Go: servers find each other by UDP broadcast, elect a leader, and carry the
  lines of the chat clients to each other by causally ordered reliable multicast; clients connect
  by TCP. This development models the program as it is written and proves what it guarantees, and
  where it does not guarantee what it means to.

  \<^bold>\<open>Parts and theories.\<close>

  \<^item> \<open>Prelude\<close>, \<open>GoBytes\<close>: Go's integers, strings, maps and byte readers; reachable states; the contract
    of a codec.
  \<^item> \<open>Messages\<close> (\<^verbatim>\<open>server/message/message.go\<close>): \<open>AppMessage\<close> is the struct \<open>Message\<close>; \<open>Encode\<close>,
    \<open>Decode\<close> and the constructors have the source's names.
  \<^item> \<open>UnicastCodec\<close>, \<open>UnicastSender\<close>, \<open>UnicastListener\<close>, \<open>UnicastProtocol\<close>
    (\<^verbatim>\<open>server/unicast/unicast.go\<close>): the datagrams; \<open>send\<close>, its retransmissions and the cleanup of a dead
    peer; one turn of the listener, \<open>receive\<close>; and two nodes with both goroutines and the channels
    between them over a network that loses, repeats and reorders, \<open>link_step\<close>.
  \<^item> \<open>MulticastCodec\<close>, \<open>Multicast\<close>, \<open>MulticastSending\<close>, \<open>CausalDelivery\<close>, \<open>CausalNetwork\<close>
    (\<^verbatim>\<open>server/multicast/multicast.go\<close>): the datagrams; the record \<open>ReliableMulticast\<close> with one
    definition per method; acknowledgements and retransmission; what one node delivers under any
    interleaving of its critical sections, \<open>mc_run\<close>; and a session of several nodes, \<open>session_step\<close>.
    \<open>CausalHistory\<close> compares the states of one session at two times.
  \<^item> \<open>StateMachine\<close>, \<open>Broadcast\<close> (\<^verbatim>\<open>server/state_machine.go\<close>, \<^verbatim>\<open>server/broadcast/broadcast.go\<close>):
    \<open>ChangeTo\<close> and its table; the leader's beacon and the search for one.
  \<^item> \<open>ServerCore\<close>, \<open>ServerDispatch\<close>, \<open>ServerStates\<close> (\<^verbatim>\<open>server/server.go\<close>, \<^verbatim>\<open>server/unicast.go\<close>,
    \<^verbatim>\<open>server/multicast.go\<close>, \<^verbatim>\<open>server/state_listener.go\<close>, \<^verbatim>\<open>server/heartbeat.go\<close>): the record
    \<open>Server\<close>, the peer table and the changes of membership; the dispatchers of both transports; the
    actions of the transitions, the main loop, the monitors and the election.
  \<^item> \<open>ServerSystem\<close>, \<open>ServerInvariants\<close>, \<open>ServerRaces\<close>: one server with all its goroutines. A step of
    \<open>sys_step\<close> is one of the operations above, run by the goroutine whose turn it is; the first argument
    says whether the main loop takes the states in the order in which they were offered.
  \<^item> \<open>FailureDetector\<close> (\<^verbatim>\<open>server/heartbeat.go\<close>, \<^verbatim>\<open>server/state_listener.go\<close>): the heartbeats, the two
    monitors as loops over what their \<open>select\<close> takes, \<open>monitor_run\<close> and \<open>follower_run\<close>, and the quit
    channel that a leader's two goroutines share, \<open>quit_step\<close>.
  \<^item> \<open>Locks\<close>: \<open>s.mu\<close>, \<open>rm.mu\<close> and the channel between the multicast layer and the dispatcher; a goroutine
    is the list of its operations on them.
  \<^item> \<open>Lifecycle\<close> (\<^verbatim>\<open>main.go\<close>, \<^verbatim>\<open>server/server.go\<close>): the port of a session, the start of the process, the
    chain of \<open>Shutdown\<close>, and the two methods that kill a server on purpose.
  \<^item> \<open>Chat\<close>, \<open>Connections\<close>, \<open>ClientProgram\<close>, \<open>ChatRoom\<close> (\<^verbatim>\<open>client/client.go\<close>, \<^verbatim>\<open>server/client.go\<close>):
    lines, redirection, what a client shows; the goroutines of a server's connections with their
    channels, \<open>conn_step\<close>; the goroutines of the client, \<open>client_step\<close>; and the servers of a session with
    the lines they multicast and hand to their clients, \<open>room_step\<close>.
  \<^item> \<open>NetUtils\<close> (\<^verbatim>\<open>server/utils.go\<close>): address arithmetic.

  \<^bold>\<open>How they interact.\<close> A line goes from the client (\<open>chat_input\<close>) through the server's connection
  (\<open>handleConn\<close>) to \<open>multicast_line\<close>, which makes an application message and calls \<open>SendMessage\<close>; the
  datagram arrives at \<open>handle_datagram\<close> of every other member, waits in the hold-back queue, is
  delivered by \<open>DeliverMessages\<close>, reaches \<open>dispatch_multicast\<close> and from there the clients. Membership
  goes by unicast: \<open>connectToLeaderHandler\<close> at the leader, \<open>dispatch_unicast\<close> at the members,
  \<open>joinMulticastFromPeerInfo\<close> at the newcomer.

  \<^bold>\<open>Conventions.\<close> State is a record and an operation returns it updated. Panics and \<open>log.Fatal\<close> are
  \<open>None\<close>, decoding errors the left part of a sum, blocking a value of \<open>outcome\<close>. Effects on
  sockets, channels and goroutines are lists of effect values. The order in which Go walks a map is
  an argument, any enumeration of the keys (\<open>range_order\<close>). What happens during a sleep is an
  argument as well, or a step of a step relation. \<open>uuid.Parse\<close>, which is not part of the
  repository, is a parameter.

  \<^bold>\<open>What the lemmas show.\<close> The codecs are inverse on well-formed messages (locale \<open>codec\<close>). The sender
  and listener of reliable unicast keep their invariants (locales \<open>event_machine\<close> and
  \<open>invariant_system\<close>), and together are an exactly-once in-order channel for calls made one after the
  other, until a call fails. The delivery goroutines of multicast meet the contract of a causal
  deliverer (locale \<open>causal_deliverer\<close>): causal order, no gaps, no repetition, and in a session with
  fixed members no message gets stuck and no reply comes before what it answers; so every server's
  clients are shown each user's lines in order, as long as every line fits a datagram. The state machine does what its table says, the
  broadcaster never runs twice, a join gives one session to all, a server leaves an
  election as leader only when no server with a higher identifier has answered. A running server is
  well typed in every reachable state and has a beacon exactly as leader, and its main loop follows
  the machine as long as states arrive in order. The failure detectors never suspect a punctual
  peer and find a silent one; the connections lose no line; the client writes where it listens. Other theorems pin down failures: frames that arrive out of order, peers
  falsely declared dead, datagrams that crash the listener, groups too large for its buffer,
  acknowledgements that are not waited for, a victory that overtakes an election, a dispatcher
  that waits for a reader that is gone, two mutexes taken in opposite orders, a monitor that misses
  its quit channel, a client that searches twice.

  \<^bold>\<open>Bounds.\<close> Receive buffers have 1024 bytes (\<open>recv_buf\<close>). \<open>send\<close> makes at most 21 rounds and the list of
  rounds it is given decides how many it can make; the theorems ask for 21, which are always
  enough. Multicast retransmission makes at most 20 rounds, and \<open>getRandomUDPPort\<close> 20 draws. A line of at most 65535 bytes gets through
  \<open>bufio.Scanner\<close> (\<open>MaxScanTokenSize\<close>); one that fits a datagram (\<open>line_fits\<close>) through the multicast. The channels have
  the source's sizes, 5 (\<open>queue_size\<close>) and 10 (\<open>channel_size\<close>). Times are in milliseconds. Frames and clocks are words of 64 and 32 bits; the theorems
  on whole runs ask for fewer messages than that. \<open>DeliverMessages\<close>, \<open>drain\<close> and the parsers
  terminate without a bound.

  \<^bold>\<open>Not modelled.\<close> Sockets and timers, whose results and order are arguments or steps; logging
  and \<open>Debug\<close>; the terminal and the colours of the client. The step relation of a server takes
  the stop of a listener, the new state and the start of the next listener as one step, does not
  stop its goroutines at \<open>Shutdown\<close>, and has no full channels; those are in \<open>Locks\<close> and \<open>Connections\<close>,
  where a write to a slow client takes no time. Data races on fields that the program reads without its
  mutex, and the memory a message can make the decoder ask for, but for lengths that Go refuses
  outright (\<open>max_alloc\<close>). \<^verbatim>\<open>server/tests\<close> and the unit tests.
\<close>

end
